theory Spec2Isabelle
  imports Complex_Main "HOL-Library.AList"
begin

section \<open>JavaScript numbers\<close>

text \<open>
  The transforms of \<^verbatim>\<open>plugins/npm-probe.js\<close> compute with JavaScript numbers, which are
  IEEE 754 doubles. A finite number is modelled by the real it denotes; the two
  infinities and NaN are values of their own, because the source can produce them: a
  division by zero, or arithmetic on a missing property (\<^verbatim>\<open>undefined / n\<close> is NaN). The
  sign of zero is not modelled.
\<close>

datatype jsnum = Fin real | PInf | NInf | NaN

subsection \<open>Rounding to a double\<close>

text \<open>
  The exponent of a positive real: the \<open>e\<close> with \<open>2^e \<le> x < 2^(e + 1)\<close>, found by halving
  and doubling.
\<close>

function expo :: "real \<Rightarrow> int" where
  "expo x = (if 2 \<le> x then expo (x / 2) + 1
             else if 0 < x \<and> x < 1 then expo (x * 2) - 1
             else 0)"
  by pat_completeness auto
termination
proof (relation "measure (\<lambda>x. nat \<bar>\<lfloor>log 2 x\<rfloor>\<bar>)")
  show "wf (measure (\<lambda>x. nat \<bar>\<lfloor>log 2 x\<rfloor>\<bar>))"
    by simp
next
  fix x :: real
  assume x: "2 \<le> x"
  then have "log 2 (x / 2) = log 2 x - 1"
    by (simp add: log_divide)
  moreover have "1 \<le> log 2 x"
    using x by (simp add: le_log_iff)
  then have "1 \<le> \<lfloor>log 2 x\<rfloor>"
    by (simp add: le_floor_iff)
  ultimately show "(x / 2, x) \<in> measure (\<lambda>x. nat \<bar>\<lfloor>log 2 x\<rfloor>\<bar>)"
    by simp
next
  fix x :: real
  assume "\<not> 2 \<le> x" and x: "0 < x \<and> x < 1"
  then have "\<lfloor>log 2 (x * 2)\<rfloor> = \<lfloor>log 2 x\<rfloor> + 1"
    by (simp add: log_mult)
  moreover have "log 2 x < 0"
    using x by simp
  then have "\<lfloor>log 2 x\<rfloor> \<le> - 1"
    by (simp add: floor_le_iff)
  ultimately show "(x * 2, x) \<in> measure (\<lambda>x. nat \<bar>\<lfloor>log 2 x\<rfloor>\<bar>)"
    by (simp only: in_measure)
qed

declare expo.simps [simp del]

definition pow2 :: "int \<Rightarrow> real" where
  "pow2 k = (if 0 \<le> k then 2 ^ nat k else 1 / 2 ^ nat (- k))"

text \<open>Rounding to the nearest integer, a tie to the even one.\<close>

definition rhe :: "real \<Rightarrow> int" where
  "rhe y = (let q = \<lfloor>y\<rfloor>; f = y - of_int q
            in if f < 1 / 2 then q else if 1 / 2 < f then q + 1
               else if even q then q else q + 1)"

text \<open>
  A double is \<open>m * 2^(e - 52)\<close> for an integer \<open>m\<close> below \<open>2^53\<close> in magnitude and an
  exponent \<open>e\<close> from \<open>-1022\<close> to \<open>1023\<close>. \<open>ulp a\<close> is the distance between the doubles
  around a positive \<open>a\<close> (the exponent of a subnormal number is \<open>-1022\<close>), and \<open>rnd x\<close>
  is the multiple of it nearest to \<open>x\<close>, a tie going to the even multiple. \<open>fl x\<close> is the
  number an arithmetic operation with the exact result \<open>x\<close> returns: \<open>rnd x\<close>, or an
  infinity when that is \<open>2^1024\<close> or more in magnitude.
\<close>

definition ulp :: "real \<Rightarrow> real" where
  "ulp a = pow2 (max (expo a) (- 1022) - 52)"

definition rnd :: "real \<Rightarrow> real" where
  "rnd x = (if x = 0 then 0 else sgn x * (of_int (rhe (\<bar>x\<bar> / ulp \<bar>x\<bar>)) * ulp \<bar>x\<bar>))"

definition fl :: "real \<Rightarrow> jsnum" where
  "fl x = (if 2 ^ 1024 \<le> \<bar>rnd x\<bar> then (if 0 < x then PInf else NInf) else Fin (rnd x))"

subsection \<open>Arithmetic\<close>

text \<open>\<^verbatim>\<open>a / b\<close>\<close>

fun jdiv :: "jsnum \<Rightarrow> jsnum \<Rightarrow> jsnum" where
  "jdiv NaN _ = NaN"
| "jdiv _ NaN = NaN"
| "jdiv (Fin a) (Fin b) =
     (if b = 0 then (if a = 0 then NaN else if 0 < a then PInf else NInf) else fl (a / b))"
| "jdiv (Fin a) PInf = Fin 0"
| "jdiv (Fin a) NInf = Fin 0"
| "jdiv PInf (Fin b) = (if 0 \<le> b then PInf else NInf)"
| "jdiv NInf (Fin b) = (if 0 \<le> b then NInf else PInf)"
| "jdiv PInf PInf = NaN"
| "jdiv PInf NInf = NaN"
| "jdiv NInf PInf = NaN"
| "jdiv NInf NInf = NaN"

text \<open>\<^verbatim>\<open>a + b\<close> on numbers\<close>

fun jadd :: "jsnum \<Rightarrow> jsnum \<Rightarrow> jsnum" where
  "jadd NaN _ = NaN"
| "jadd _ NaN = NaN"
| "jadd (Fin a) (Fin b) = fl (a + b)"
| "jadd PInf NInf = NaN"
| "jadd NInf PInf = NaN"
| "jadd PInf _ = PInf"
| "jadd _ PInf = PInf"
| "jadd NInf _ = NInf"
| "jadd _ NInf = NInf"

text \<open>\<^verbatim>\<open>a * b\<close>\<close>

fun jmul :: "jsnum \<Rightarrow> jsnum \<Rightarrow> jsnum" where
  "jmul NaN _ = NaN"
| "jmul _ NaN = NaN"
| "jmul (Fin a) (Fin b) = fl (a * b)"
| "jmul (Fin a) PInf = (if a = 0 then NaN else if 0 < a then PInf else NInf)"
| "jmul (Fin a) NInf = (if a = 0 then NaN else if 0 < a then NInf else PInf)"
| "jmul PInf (Fin b) = (if b = 0 then NaN else if 0 < b then PInf else NInf)"
| "jmul NInf (Fin b) = (if b = 0 then NaN else if 0 < b then NInf else PInf)"
| "jmul PInf PInf = PInf"
| "jmul PInf NInf = NInf"
| "jmul NInf PInf = NInf"
| "jmul NInf NInf = PInf"

text \<open>\<^verbatim>\<open>a <= b\<close> and \<^verbatim>\<open>a < b\<close>: every comparison with NaN is false.\<close>

fun jle :: "jsnum \<Rightarrow> jsnum \<Rightarrow> bool" where
  "jle NaN _ = False"
| "jle _ NaN = False"
| "jle (Fin a) (Fin b) = (a \<le> b)"
| "jle NInf _ = True"
| "jle _ PInf = True"
| "jle PInf _ = False"
| "jle _ NInf = False"

fun jlt :: "jsnum \<Rightarrow> jsnum \<Rightarrow> bool" where
  "jlt NaN _ = False"
| "jlt _ NaN = False"
| "jlt (Fin a) (Fin b) = (a < b)"
| "jlt PInf _ = False"
| "jlt _ NInf = False"
| "jlt NInf _ = True"
| "jlt _ PInf = True"

text \<open>
  \<^verbatim>\<open>Math.floor(a)\<close> and \<^verbatim>\<open>Math.round(a)\<close> (halves round up): for a double \<open>a\<close> the result is an
  integer that a double holds exactly.
\<close>

fun jfloor :: "jsnum \<Rightarrow> jsnum" where
  "jfloor (Fin a) = Fin (of_int \<lfloor>a\<rfloor>)"
| "jfloor x = x"

fun jround :: "jsnum \<Rightarrow> jsnum" where
  "jround (Fin a) = Fin (of_int \<lfloor>a + 1 / 2\<rfloor>)"
| "jround x = x"

text \<open>Truthiness of a number, as \<^verbatim>\<open>||\<close> tests it: 0 and NaN are falsy.\<close>

fun truthy :: "jsnum \<Rightarrow> bool" where
  "truthy (Fin a) = (a \<noteq> 0)"
| "truthy NaN = False"
| "truthy _ = True"

section \<open>Samples and aggregate points\<close>

text \<open>
  A probe sample carries \<^verbatim>\<open>start\<close> (epoch milliseconds) and \<^verbatim>\<open>results\<close>, whose shape
  depends on the probe type; the transforms read nothing else of it. An aggregate point
  is \<^verbatim>\<open>{t, values}\<close>. The fields \<^verbatim>\<open>t\<close> and \<^verbatim>\<open>values\<close> are named \<open>pt_t\<close> and
  \<open>pt_values\<close> here.
\<close>

record 'r probe =
  start :: int
  results :: 'r

record 'v point =
  pt_t :: int
  pt_values :: 'v

text \<open>
  The results of a ping sample and the values of a moving-average point are objects
  with numeric properties: association lists in property order, without repeated keys.
\<close>

type_synonym metrics = "(string \<times> jsnum) list"

section \<open>movingAverage\<close>

text \<open>
  One pass of the body of the \<^verbatim>\<open>for (var data in probe.results)\<close> loop, for the
  property \<open>data\<close> whose value in the current sample is \<open>cur\<close>:
  \<^verbatim>\<open>
  result.values[data] = result.values[data] || probe.results[data] / n;
  result.values[data] += original[k > 0 ? k : 0].results[data] / n;
  \<close>
  A property the earlier sample lacks reads as \<^verbatim>\<open>undefined\<close>, and \<^verbatim>\<open>undefined / n\<close> is NaN.
\<close>

definition avg_step :: "nat \<Rightarrow> metrics probe list \<Rightarrow> int \<Rightarrow> metrics \<Rightarrow> string \<times> jsnum \<Rightarrow> metrics" where
  "avg_step n original k vals kv =
     (case kv of (data, cur) \<Rightarrow>
        let v0 = (case map_of vals data of
                    Some v \<Rightarrow> if truthy v then v else jdiv cur (Fin (real n))
                  | None \<Rightarrow> jdiv cur (Fin (real n)));
            prev = (case map_of (results (original ! nat (max k 0))) data of
                      Some x \<Rightarrow> x
                    | None \<Rightarrow> NaN)
        in AList.update data (jadd v0 (jdiv prev (Fin (real n)))) vals)"

text \<open>
  \<^verbatim>\<open>while (++k < i) { for (var data in probe.results) ... }\<close>: \<open>k\<close> is incremented
  before the test, and the body runs with the incremented value.
\<close>

function avg_while :: "nat \<Rightarrow> metrics probe list \<Rightarrow> metrics probe \<Rightarrow> int \<Rightarrow> int \<Rightarrow> metrics \<Rightarrow> metrics" where
  "avg_while n original probe i k vals =
     (if k + 1 < i
      then avg_while n original probe i (k + 1)
             (fold (\<lambda>kv acc. avg_step n original (k + 1) acc kv) (results probe) vals)
      else vals)"
  by pat_completeness auto
termination
  by (relation "measure (\<lambda>(n, original, probe, i, k, vals). nat (i - k))") auto

declare avg_while.simps [simp del]

text \<open>
  \<^verbatim>\<open>movingAverage(n)\<close> applied to \<open>original\<close>. \<^verbatim>\<open>n = n || 5\<close> replaces a window of 0
  (or none) by 5; \<^verbatim>\<open>data.map\<close> passes each sample with its index.
\<close>

definition movingAverage :: "nat \<Rightarrow> metrics probe list \<Rightarrow> metrics point list" where
  "movingAverage n0 original =
     (let n = (if n0 = 0 then 5 else n0)
      in map (\<lambda>(i, probe).
                \<lparr>pt_t = start probe,
                 pt_values = avg_while n original probe (int i) (int i - int n) []\<rparr>)
             (List.enumerate 0 original))"

text \<open>
  The window the specification describes: the mean of a metric over the \<open>n\<close> samples at
  the indices \<open>i - n, ..., i - 1\<close>, an index below 0 replaced by 0.
\<close>

definition metric :: "string \<Rightarrow> metrics probe \<Rightarrow> real" where
  "metric key p = (case map_of (results p) key of Some (Fin v) \<Rightarrow> v | _ \<Rightarrow> 0)"

definition spec_window_mean :: "nat \<Rightarrow> metrics probe list \<Rightarrow> nat \<Rightarrow> string \<Rightarrow> jsnum" where
  "spec_window_mean n original i key =
     Fin ((\<Sum>k \<leftarrow> [int i - int n .. int i - 1]. metric key (original ! nat (max k 0))) / real n)"

text \<open>
  What one pass of the loop body does to the value of one property: \<open>old\<close> is the
  value before the pass (\<open>None\<close> when the property is not set yet).
\<close>

definition key_step :: "nat \<Rightarrow> metrics probe list \<Rightarrow> int \<Rightarrow> string \<Rightarrow> jsnum \<Rightarrow> jsnum option \<Rightarrow> jsnum" where
  "key_step n original k key cur old =
     jadd (case old of Some v \<Rightarrow> if truthy v then v else jdiv cur (Fin (real n))
                     | None \<Rightarrow> jdiv cur (Fin (real n)))
          (jdiv (case map_of (results (original ! nat (max k 0))) key of Some x \<Rightarrow> x | None \<Rightarrow> NaN)
                (Fin (real n)))"

text \<open>
  The passes of the loop, for one property: \<open>seed\<close> is \<^verbatim>\<open>probe.results[data] / n\<close>, \<open>old\<close>
  the value before the passes and the list holds the term that each pass adds.
\<close>

fun run_key :: "jsnum \<Rightarrow> jsnum option \<Rightarrow> jsnum list \<Rightarrow> jsnum option" where
  "run_key seed old [] = old"
| "run_key seed old (c # cs) =
     run_key seed
       (Some (jadd (case old of Some v \<Rightarrow> if truthy v then v else seed | None \<Rightarrow> seed) c)) cs"

text \<open>
  The terms that the passes for point \<open>i\<close> add: the metric of the samples at the indices
  \<open>i - n + 1, ..., i - 1\<close> (an index below 0 replaced by 0), each divided by \<open>n\<close>.
\<close>

definition window_terms :: "nat \<Rightarrow> metrics probe list \<Rightarrow> nat \<Rightarrow> string \<Rightarrow> jsnum list" where
  "window_terms n original i key =
     map (\<lambda>k. jdiv (case map_of (results (original ! nat (max k 0))) key of
                      Some x \<Rightarrow> x
                    | None \<Rightarrow> NaN)
                   (Fin (real n)))
         [int i - int n + 1 .. int i - 1]"

text \<open>
  The scenario of the specification: three ping samples with \<^verbatim>\<open>start\<close> 1000, 2000, 3000
  and \<^verbatim>\<open>results.latency\<close> 10, 20, 30. And three samples whose quotients by 3 are not
  doubles: \<^verbatim>\<open>results.latency\<close> 1, 1, 4.
\<close>

definition d3 :: "metrics probe list" where
  "d3 = [\<lparr>start = 1000, results = [(''latency'', Fin 10)]\<rparr>,
         \<lparr>start = 2000, results = [(''latency'', Fin 20)]\<rparr>,
         \<lparr>start = 3000, results = [(''latency'', Fin 30)]\<rparr>]"

definition d114 :: "metrics probe list" where
  "d114 = [\<lparr>start = 1000, results = [(''latency'', Fin 1)]\<rparr>,
           \<lparr>start = 2000, results = [(''latency'', Fin 1)]\<rparr>,
           \<lparr>start = 3000, results = [(''latency'', Fin 4)]\<rparr>]"

section \<open>Configuration and environment\<close>

text \<open>
  \<^verbatim>\<open>pagelet\<close> is the module \<^verbatim>\<open>registry-status-pagelet\<close>, which is not part of this
  repository: its table \<^verbatim>\<open>pagelet.intervals\<close> (label and threshold, in the order
  \<^verbatim>\<open>Object.keys\<close> enumerates them) and its constant \<^verbatim>\<open>pagelet.day\<close> are parameters of
  the model. So are \<^verbatim>\<open>Collector.probes.publish.interval\<close>, the local time zone (as the
  function that \<^verbatim>\<open>new Date(x).setHours(0, 0, 0, 0)\<close> computes: the local midnight before
  a timestamp) and the clock that \<^verbatim>\<open>new Date()\<close> reads.
\<close>

record pagelet =
  intervals :: "(string \<times> jsnum) list"
  day :: jsnum

text \<open>A failed property access on \<^verbatim>\<open>undefined\<close> throws a \<^verbatim>\<open>TypeError\<close>.\<close>

datatype error = TypeError

text \<open>
  \<^verbatim>\<open>Array.prototype.forEach\<close> and \<^verbatim>\<open>reduce\<close> with a callback that may throw: the state
  is threaded through the calls, and the first exception ends the loop.
\<close>

fun forEach :: "('s \<Rightarrow> 'a \<Rightarrow> error + 's) \<Rightarrow> 'a list \<Rightarrow> 's \<Rightarrow> error + 's" where
  "forEach f [] s = Inr s"
| "forEach f (x # xs) s = (case f s x of Inl e \<Rightarrow> Inl e | Inr s' \<Rightarrow> forEach f xs s')"

section \<open>timeUnit\<close>

text \<open>
  A delta sample: \<^verbatim>\<open>results\<close> may be missing (the code tests \<^verbatim>\<open>probe.results\<close>), and so
  may \<^verbatim>\<open>results.lag\<close>; \<^verbatim>\<open>results.modules\<close> is \<open>None\<close> when it is not an array. A bucket
  record is \<^verbatim>\<open>{modules, type, days, n}\<close>; its fields carry the prefix \<open>b_\<close> here, those of
  \<^verbatim>\<open>results\<close> the prefix \<open>r_\<close>.
\<close>

record lag =
  mean :: jsnum

record delta_results =
  r_lag :: "lag option"
  r_modules :: "string list option"

type_synonym delta_probe = "delta_results option probe"

record bucket =
  b_modules :: "string list"
  b_type :: string
  b_days :: jsnum
  b_n :: nat

text \<open>
  The truthiness of the variable \<^verbatim>\<open>interval\<close>, which is \<^verbatim>\<open>undefined\<close> or an index:
  \<^verbatim>\<open>undefined\<close> and the index 0 are falsy.
\<close>

fun found :: "nat option \<Rightarrow> bool" where
  "found None = False"
| "found (Some i) = (i \<noteq> 0)"

text \<open>
  The callback of \<^verbatim>\<open>position.forEach\<close>, for the key at index \<open>i\<close> with threshold
  \<open>thr = pagelet.intervals[key]\<close>. The state is \<open>memo\<close> and the variable \<^verbatim>\<open>interval\<close>.
  The variable \<^verbatim>\<open>days\<close> of \<^verbatim>\<open>timeUnit\<close> is never assigned, so \<^verbatim>\<open>days || x\<close> is \<open>x\<close>:
  \<^verbatim>\<open>
  if (probe.results && probe.results.lag) {
    memo[i].days += days || probe.results.lag.mean / pagelet.day;
    if (interval) return;
    if (probe.results.lag.mean <= pagelet.intervals[key]) interval = i;
  }
  \<close>
\<close>

definition each :: "pagelet \<Rightarrow> delta_probe \<Rightarrow> bucket list \<times> nat option \<Rightarrow>
    nat \<times> string \<times> jsnum \<Rightarrow> error + bucket list \<times> nat option" where
  "each pg probe st ikey =
     (case st of (memo, interval) \<Rightarrow>
      case ikey of (i, key, thr) \<Rightarrow>
      case results probe of
        None \<Rightarrow> Inr st
      | Some r \<Rightarrow>
         (case r_lag r of
            None \<Rightarrow> Inr st
          | Some l \<Rightarrow>
             if length memo \<le> i then Inl TypeError
             else
               let memo' = memo[i := (memo ! i)\<lparr>b_days := jadd (b_days (memo ! i)) (jdiv (mean l) (day pg))\<rparr>]
               in if found interval then Inr (memo', interval)
                  else if jle (mean l) thr then Inr (memo', Some i)
                  else Inr (memo', interval)))"

text \<open>
  The modules \<^verbatim>\<open>timeUnit\<close> pushes: \<^verbatim>\<open>map\<close> keeps a module that \<^verbatim>\<open>indexOf\<close> does not find
  in the bucket as it is before the push, and \<^verbatim>\<open>filter(Boolean)\<close> drops the rest (and the
  empty string, which is falsy).
\<close>

definition pushed :: "string list \<Rightarrow> string list \<Rightarrow> string list" where
  "pushed present ms = filter (\<lambda>m. m \<noteq> []) (filter (\<lambda>m. m \<notin> set present) ms)"

text \<open>
  \<^verbatim>\<open>timeUnit(memo, probe)\<close>. After the loop, \<^verbatim>\<open>if (!interval) interval = position.length - 1\<close>;
  with no interval at all that is \<open>-1\<close>, and \<^verbatim>\<open>memo[-1].n++\<close> throws, as does
  \<^verbatim>\<open>memo[interval].n++\<close> for a \<open>memo\<close> that is too short and \<^verbatim>\<open>probe.results.modules\<close>
  for a sample without results.
\<close>

definition timeUnit :: "pagelet \<Rightarrow> bucket list \<Rightarrow> delta_probe \<Rightarrow> error + bucket list" where
  "timeUnit pg memo probe =
     (case forEach (each pg probe) (List.enumerate 0 (intervals pg)) (memo, None) of
        Inl e \<Rightarrow> Inl e
      | Inr (memo1, interval0) \<Rightarrow>
         if \<not> found interval0 \<and> intervals pg = [] then Inl TypeError
         else
           let interval = (if found interval0 then the interval0 else length (intervals pg) - 1)
           in if length memo1 \<le> interval then Inl TypeError
              else
                let memo2 = memo1[interval := (memo1 ! interval)\<lparr>b_n := b_n (memo1 ! interval) + 1\<rparr>]
                in case results probe of
                     None \<Rightarrow> Inl TypeError
                   | Some r \<Rightarrow>
                      (case r_modules r of
                         None \<Rightarrow> Inr memo2
                       | Some ms \<Rightarrow>
                          Inr (memo2[interval := (memo2 ! interval)
                                 \<lparr>b_modules := b_modules (memo2 ! interval) @
                                    pushed (b_modules (memo2 ! interval)) ms\<rparr>])))"

text \<open>
  The empty day of the delta transform:
  \<^verbatim>\<open>Object.keys(pagelet.intervals).map(key => ({ modules: [], type: key, days: 0, n: 0 }))\<close>.
\<close>

definition delta_base :: "pagelet \<Rightarrow> bucket list" where
  "delta_base pg =
     map (\<lambda>(key, thr). \<lparr>b_modules = [], b_type = key, b_days = Fin 0, b_n = 0\<rparr>) (intervals pg)"

text \<open>
  The interval the loop and the default after it arrive at, for a mean lag \<open>m\<close>: an
  interval found at index 0 is falsy, so the search goes on and only an index from 1 on
  ends it.
\<close>

definition code_interval :: "pagelet \<Rightarrow> jsnum \<Rightarrow> nat" where
  "code_interval pg m =
     (case find (\<lambda>(i, key, thr). 0 < i \<and> jle m thr) (List.enumerate 0 (intervals pg)) of
        Some (i, key, thr) \<Rightarrow> i
      | None \<Rightarrow> length (intervals pg) - 1)"

text \<open>
  The interval the specification describes: the first whose threshold is at least the
  mean lag, the last when there is none.
\<close>

definition spec_interval :: "pagelet \<Rightarrow> jsnum \<Rightarrow> nat" where
  "spec_interval pg m =
     (case find (\<lambda>(i, key, thr). jle m thr) (List.enumerate 0 (intervals pg)) of
        Some (i, key, thr) \<Rightarrow> i
      | None \<Rightarrow> length (intervals pg) - 1)"

section \<open>percentage\<close>

text \<open>
  A publish sample has \<^verbatim>\<open>results.published\<close>, a flag; \<^verbatim>\<open>+probe.results.published\<close> is 1
  for \<open>True\<close> and 0 for \<open>False\<close>. A slot record is
  \<^verbatim>\<open>{type, percentage, total, n, lower}\<close>, with the prefix \<open>s_\<close> here.
\<close>

record publish_results =
  published :: bool

type_synonym publish_probe = "publish_results probe"

record slot =
  s_type :: string
  s_percentage :: jsnum
  s_total :: jsnum
  s_n :: nat
  s_lower :: jsnum

text \<open>\<^verbatim>\<open>Math.round(n / total * 100)\<close>\<close>

definition pct :: "nat \<Rightarrow> jsnum \<Rightarrow> jsnum" where
  "pct k tot = jround (jmul (jdiv (Fin (real k)) tot) (Fin 100))"

text \<open>
  \<^verbatim>\<open>percentage(memo, probe)\<close>, with the publish probe's \<open>interval\<close>, the time zone
  \<open>midnight\<close> and the clock reading \<open>now\<close>. \<^verbatim>\<open>pagelet.intervals.day\<close> is the threshold
  labelled \<^verbatim>\<open>day\<close> (\<^verbatim>\<open>undefined\<close>, NaN in arithmetic, when there is none). With fewer
  than two slots, \<^verbatim>\<open>memo[state]\<close> or \<^verbatim>\<open>memo[1].percentage\<close> throws. The variables
  \<^verbatim>\<open>day\<close> and \<^verbatim>\<open>done\<close> of the source are \<open>today\<close> and \<open>done'\<close> here.
\<close>

definition percentage :: "pagelet \<Rightarrow> jsnum \<Rightarrow> (int \<Rightarrow> int) \<Rightarrow> int \<Rightarrow> slot list \<Rightarrow> publish_probe \<Rightarrow>
    error + slot list" where
  "percentage pg interval midnight now memo probe =
     (let today = midnight now;
          diff = (if today < start probe then Fin (of_int (start probe - today))
                  else (case map_of (intervals pg) ''day'' of Some v \<Rightarrow> v | None \<Rightarrow> NaN));
          done' = jfloor (jdiv diff interval);
          state = (if published (results probe) then 1 else 0)
      in if length memo < 2 then Inl TypeError
         else
           let memo1 = (if jlt (s_total (memo ! state)) done'
                        then (memo[1 := (memo ! 1)\<lparr>s_total := done'\<rparr>])
                               [0 := (memo ! 0)\<lparr>s_total := done'\<rparr>]
                        else memo);
               memo2 = memo1[state := (memo1 ! state)\<lparr>s_n := s_n (memo1 ! state) + 1\<rparr>];
               memo3 = memo2[state := (memo2 ! state)
                          \<lparr>s_percentage := pct (s_n (memo2 ! state)) (s_total (memo2 ! state))\<rparr>]
           in Inr (memo3[0 := (memo3 ! 0)\<lparr>s_lower := s_percentage (memo3 ! 1)\<rparr>]))"

text \<open>The empty day of the publish transform.\<close>

definition publish_base :: "slot list" where
  "publish_base =
     [\<lparr>s_type = ''failure'', s_percentage = Fin 0, s_total = Fin 0, s_n = 0, s_lower = Fin 0\<rparr>,
      \<lparr>s_type = ''success'', s_percentage = Fin 0, s_total = Fin 0, s_n = 0, s_lower = Fin 0\<rparr>]"

text \<open>A percentage within \<open>[0, 100]\<close>.\<close>

definition in_range :: "jsnum \<Rightarrow> bool" where
  "in_range v = (jle (Fin 0) v \<and> jle v (Fin 100))"

section \<open>groupPerDay\<close>

text \<open>
  \<^verbatim>\<open>groupPerDay\<close> holds arrays by reference: the template \<^verbatim>\<open>base\<close> and one array per
  day, which \<^verbatim>\<open>categorize\<close> changes in place. The store is the list of the arrays
  allocated so far, a reference is an index into it, and a cell holds the whole array
  with its records. \<^verbatim>\<open>clone\<close>, which is \<^verbatim>\<open>JSON.parse(JSON.stringify(input))\<close>,
  allocates a new cell with a copy of the array (both templates of \<^verbatim>\<open>transform\<close> hold
  only strings, finite numbers and arrays, which JSON represents exactly).
\<close>

type_synonym 'u store = "'u list list"

definition clone :: "nat \<Rightarrow> 'u store \<Rightarrow> nat \<times> 'u store" where
  "clone input h = (length h, h @ [h ! input])"

text \<open>
  The callback of \<^verbatim>\<open>data.reduce\<close>. \<open>result\<close> is the object that maps a day key to the
  reference of the day's array:
  \<^verbatim>\<open>
  var n = new Date(probe.start).setHours(0,0,0,0);
  memo[n] = memo[n] || clone(base);
  memo[n] = categorize(memo[n], probe);
  \<close>
  \<open>categorize\<close> changes the array it is given and returns it: the model passes the
  content of the cell and writes the content after the call to the same cell.
\<close>

definition reduce_day :: "(int \<Rightarrow> int) \<Rightarrow> ('u list \<Rightarrow> 'r probe \<Rightarrow> error + 'u list) \<Rightarrow> nat \<Rightarrow>
    (int \<times> nat) list \<times> 'u store \<Rightarrow> 'r probe \<Rightarrow> error + (int \<times> nat) list \<times> 'u store" where
  "reduce_day midnight categorize base st probe =
     (case st of (result, h) \<Rightarrow>
        let n = midnight (start probe);
            (ref, h1) = (case map_of result n of Some r \<Rightarrow> (r, h) | None \<Rightarrow> clone base h)
        in case categorize (h1 ! ref) probe of
             Inl e \<Rightarrow> Inl e
           | Inr v \<Rightarrow> Inr (AList.update n ref result, h1[ref := v]))"

text \<open>
  \<^verbatim>\<open>Object.keys(result)\<close>: the keys that are array indices (the integers from 0 to
  \<open>2^32 - 2\<close>) in ascending order, then the other keys in the order of their creation.
\<close>

definition object_keys :: "(int \<times> 'a) list \<Rightarrow> int list" where
  "object_keys result =
     sort (filter (\<lambda>k. 0 \<le> k \<and> k < 4294967295) (map fst result)) @
     filter (\<lambda>k. \<not> (0 \<le> k \<and> k < 4294967295)) (map fst result)"

text \<open>
  The second \<^verbatim>\<open>reduce\<close>: one point \<^verbatim>\<open>{t: dayn, values: unit}\<close> for every unit of every
  day (\<^verbatim>\<open>t\<close> is the key, a string in the source, as the number it denotes).
\<close>

definition maptoarray :: "(int \<times> nat) list \<Rightarrow> 'u store \<Rightarrow> 'u point list" where
  "maptoarray result h =
     concat (map (\<lambda>dayn. map (\<lambda>unit. \<lparr>pt_t = dayn, pt_values = unit\<rparr>)
                           (case map_of result dayn of Some r \<Rightarrow> h ! r | None \<Rightarrow> []))
                 (object_keys result))"

text \<open>
  \<^verbatim>\<open>groupPerDay(categorize, base)(data)\<close>, from the store \<open>h\<close>: the points, the object
  \<open>result\<close> and the store after the call.
\<close>

definition groupPerDay :: "(int \<Rightarrow> int) \<Rightarrow> ('u list \<Rightarrow> 'r probe \<Rightarrow> error + 'u list) \<Rightarrow> nat \<Rightarrow>
    'r probe list \<Rightarrow> 'u store \<Rightarrow> error + 'u point list \<times> (int \<times> nat) list \<times> 'u store" where
  "groupPerDay midnight categorize base data h =
     (case forEach (reduce_day midnight categorize base) data ([], h) of
        Inl e \<Rightarrow> Inl e
      | Inr (result, h') \<Rightarrow> Inr (maptoarray result h', result, h'))"

text \<open>The samples of \<open>data\<close> that fall on the day \<open>d\<close>.\<close>

definition on_day :: "(int \<Rightarrow> int) \<Rightarrow> int \<Rightarrow> 'r probe list \<Rightarrow> 'r probe list" where
  "on_day midnight d data = filter (\<lambda>p. midnight (start p) = d) data"

section \<open>transform\<close>

text \<open>
  The three entries of \<^verbatim>\<open>transform\<close>. The templates of the two day-grouped transforms
  are allocated once, when the module is loaded: the store of a call holds the template
  in cell 0. The clock is read once per sample; \<open>now\<close> is the reading of a call during
  which the local day does not change.
\<close>

definition transform_ping :: "metrics probe list \<Rightarrow> metrics point list" where
  "transform_ping data = movingAverage 3 data"

definition transform_delta :: "pagelet \<Rightarrow> (int \<Rightarrow> int) \<Rightarrow> delta_probe list \<Rightarrow> error + bucket point list" where
  "transform_delta pg midnight data =
     map_sum id fst (groupPerDay midnight (timeUnit pg) 0 data [delta_base pg])"

definition transform_publish :: "pagelet \<Rightarrow> jsnum \<Rightarrow> (int \<Rightarrow> int) \<Rightarrow> int \<Rightarrow> publish_probe list \<Rightarrow>
    error + slot point list" where
  "transform_publish pg interval midnight now data =
     map_sum id fst (groupPerDay midnight (percentage pg interval midnight now) 0 data [publish_base])"

section \<open>Concrete inputs\<close>

text \<open>Local time is UTC: midnight is the last multiple of 86400000 ms.\<close>

definition utc_midnight :: "int \<Rightarrow> int" where
  "utc_midnight x = x - x mod 86400000"

text \<open>A table of three intervals, in milliseconds: none, up to an hour, up to a day.\<close>

definition pg3 :: pagelet where
  "pg3 = \<lparr>intervals = [(''none'', Fin 0), (''hour'', Fin 3600000), (''day'', Fin 86400000)],
          day = Fin 86400000\<rparr>"


text \<open>
  Delta samples for that table. A lag of half an hour is \<open>1800000 / 86400000\<close> of a
  day; the double nearest to that quotient is \<open>6004799503160661 / 2^58\<close>, which is
  \<open>0.020833333333333332\<close>.
\<close>

definition half_hour :: delta_probe where
  "half_hour = \<lparr>start = 1400025600005,
     results = Some \<lparr>r_lag = Some \<lparr>mean = Fin 1800000\<rparr>, r_modules = Some [''a'', ''b'']\<rparr>\<rparr>"

definition in_sync :: delta_probe where
  "in_sync = \<lparr>start = 1400025600005,
     results = Some \<lparr>r_lag = Some \<lparr>mean = Fin 0\<rparr>, r_modules = Some []\<rparr>\<rparr>"

definition twice :: delta_probe where
  "twice = \<lparr>start = 1400025600005,
     results = Some \<lparr>r_lag = Some \<lparr>mean = Fin 1800000\<rparr>, r_modules = Some [''a'', ''a'']\<rparr>\<rparr>"

definition no_lag :: delta_probe where
  "no_lag = \<lparr>start = 1400025600005, results = Some \<lparr>r_lag = None, r_modules = Some [''a'']\<rparr>\<rparr>"

definition next_day :: delta_probe where
  "next_day = \<lparr>start = 1400112000005,
     results = Some \<lparr>r_lag = Some \<lparr>mean = Fin 1800000\<rparr>, r_modules = Some [''c'']\<rparr>\<rparr>"

text \<open>
  Publish samples of the day that starts at 1400025600000 (UTC): five, fifteen and
  twenty-five minutes after midnight, and at one o'clock.
\<close>

definition early :: publish_probe where
  "early = \<lparr>start = 1400025900000, results = \<lparr>published = True\<rparr>\<rparr>"

definition at_one :: publish_probe where
  "at_one = \<lparr>start = 1400029200000, results = \<lparr>published = True\<rparr>\<rparr>"

definition quarter_past :: publish_probe where
  "quarter_past = \<lparr>start = 1400026500000, results = \<lparr>published = True\<rparr>\<rparr>"

definition twenty_five_past :: publish_probe where
  "twenty_five_past = \<lparr>start = 1400027100000, results = \<lparr>published = True\<rparr>\<rparr>"

definition just_after :: publish_probe where
  "just_after = \<lparr>start = 1400029200001, results = \<lparr>published = True\<rparr>\<rparr>"

section \<open>Properties of the rounding\<close>

text \<open>\<open>expo\<close> finds the exponent: a positive \<open>x\<close> lies between \<open>2^(expo x)\<close> and the next power.\<close>

lemma pow2_succ: "pow2 (k + 1) = 2 * pow2 k"
proof (cases "0 \<le> k")
  case True
  then show ?thesis
    by (simp add: pow2_def nat_add_distrib)
next
  case False
  then have "nat (- k) = Suc (nat (- (k + 1)))"
    by simp
  then show ?thesis
    using False by (simp add: pow2_def)
qed

lemma expo_bounds: "0 < x \<Longrightarrow> pow2 (expo x) \<le> x \<and> x < pow2 (expo x + 1)"
proof (induction x rule: expo.induct)
  case (1 x)
  show ?case
  proof (cases "2 \<le> x")
    case True
    with "1.IH"(1) have "pow2 (expo (x / 2)) \<le> x / 2 \<and> x / 2 < pow2 (expo (x / 2) + 1)"
      by simp
    moreover have e: "expo x = expo (x / 2) + 1"
      using True by (subst expo.simps) simp
    moreover have "pow2 (expo x) = 2 * pow2 (expo (x / 2))"
      "pow2 (expo x + 1) = 2 * pow2 (expo x)"
      unfolding e by (rule pow2_succ)+
    ultimately show ?thesis
      by simp
  next
    case False
    show ?thesis
    proof (cases "x < 1")
      case True
      with "1.prems" False "1.IH"(2)
      have "pow2 (expo (x * 2)) \<le> x * 2 \<and> x * 2 < pow2 (expo (x * 2) + 1)"
        by simp
      moreover have e: "expo x = expo (x * 2) - 1"
        using True False "1.prems" by (subst expo.simps) simp
      moreover have "pow2 (expo (x * 2)) = 2 * pow2 (expo x)"
        "pow2 (expo (x * 2) + 1) = 2 * pow2 (expo x + 1)"
        using pow2_succ [of "expo x"] pow2_succ [of "expo x + 1"] e by simp_all
      ultimately show ?thesis
        by simp
    next
      case False
      with \<open>\<not> 2 \<le> x\<close> have "expo x = 0"
        by (subst expo.simps) simp
      with False \<open>\<not> 2 \<le> x\<close> show ?thesis
        by (simp add: pow2_def)
    qed
  qed
qed

text \<open>The facts that evaluate an arithmetic operation on numerals.\<close>

lemmas dbl = fl_def rnd_def ulp_def rhe_def pow2_def expo.simps

section \<open>Properties of movingAverage\<close>

lemma map_enumerate_snd: "map (\<lambda>(i, p). f p) (List.enumerate k xs) = map f xs"
  by (induction xs arbitrary: k) simp_all

lemma length_movingAverage: "length (movingAverage n original) = length original"
  by (simp add: movingAverage_def Let_def)

lemma movingAverage_nth:
  "i < length original \<Longrightarrow>
   movingAverage n original ! i =
     \<lparr>pt_t = start (original ! i),
      pt_values = avg_while (if n = 0 then 5 else n) original (original ! i) (int i)
                    (int i - int (if n = 0 then 5 else n)) []\<rparr>"
  by (simp add: movingAverage_def Let_def nth_enumerate_eq)

text \<open>
  C4. For every sequence of samples and every window size, \<open>movingAverage\<close> yields one
  point per sample, and the timestamps of the points are the \<open>start\<close> timestamps of the
  samples, in order.
\<close>

theorem movingAverage_points:
  "length (movingAverage n original) = length original \<and>
   map pt_t (movingAverage n original) = map start original"
proof -
  have "map pt_t (movingAverage n original) = map (\<lambda>(i, p). start p) (List.enumerate 0 original)"
    by (simp add: movingAverage_def Let_def case_prod_beta o_def)
  also have "\<dots> = map start original"
    by (rule map_enumerate_snd)
  finally show ?thesis
    by (simp add: length_movingAverage)
qed

text \<open>
  C10. With a window of 1 the loop test \<^verbatim>\<open>++k < i\<close> fails at once (\<open>k\<close> starts at
  \<open>i - 1\<close>), so every point of \<open>movingAverage 1\<close> has an empty \<open>values\<close> object.
\<close>

theorem movingAverage_one_empty:
  "map pt_values (movingAverage 1 original) = replicate (length original) []"
proof -
  have "avg_while 1 original probe i (i - 1) [] = []" for probe i
    by (subst avg_while.simps) simp
  then have "map pt_values (movingAverage 1 original) = map (\<lambda>(i, p). []) (List.enumerate 0 original)"
    by (simp add: movingAverage_def case_prod_beta o_def)
  also have "\<dots> = map (\<lambda>p. []) original"
    by (rule map_enumerate_snd)
  finally show ?thesis
    by (simp add: map_replicate_const)
qed

subsection \<open>The value of a point\<close>

text \<open>
  The loop body touches only the property it is run for, so the value of one property
  after the inner \<^verbatim>\<open>for ... in\<close> loop is \<open>key_step\<close> of its value before.
\<close>

lemma map_of_avg_step:
  "map_of (avg_step n original k vals (d, c)) key =
     (if key = d then Some (key_step n original k d c (map_of vals d)) else map_of vals key)"
  by (simp add: avg_step_def key_step_def Let_def update_conv')

lemma map_of_avg_fold:
  "distinct (map fst rs) \<Longrightarrow>
   map_of (fold (\<lambda>kv acc. avg_step n original k acc kv) rs vals) key =
     (case map_of rs key of
        None \<Rightarrow> map_of vals key
      | Some cur \<Rightarrow> Some (key_step n original k key cur (map_of vals key)))"
proof (induction rs arbitrary: vals)
  case Nil
  then show ?case by simp
next
  case (Cons kv rs)
  obtain d c where kv: "kv = (d, c)" by (cases kv)
  from Cons.prems kv have dist: "distinct (map fst rs)" and fresh: "map_of rs d = None"
    by (auto simp: map_of_eq_None_iff)
  show ?case
    using fresh by (simp add: kv Cons.IH [OF dist] map_of_avg_step split: option.splits)
qed

lemma run_key_truthy:
  "\<forall>j < length cs. truthy (foldl jadd s (take j cs)) \<Longrightarrow>
   run_key seed (Some s) cs = Some (foldl jadd s cs)"
proof (induction cs arbitrary: s)
  case Nil
  then show ?case by simp
next
  case (Cons c cs)
  from Cons.prems have "truthy (foldl jadd s (take 0 (c # cs)))"
    by blast
  then have s: "truthy s"
    by simp
  have "\<forall>j < length cs. truthy (foldl jadd (jadd s c) (take j cs))"
  proof (intro allI impI)
    fix j
    assume "j < length cs"
    then have "Suc j < length (c # cs)"
      by simp
    with Cons.prems have "truthy (foldl jadd s (take (Suc j) (c # cs)))"
      by blast
    then show "truthy (foldl jadd (jadd s c) (take j cs))"
      by simp
  qed
  from Cons.IH [OF this] show ?case
    using s by simp
qed

lemma map_of_avg_while:
  assumes "distinct (map fst (results probe))" "map_of (results probe) key = Some cur"
  shows "map_of (avg_while n original probe i k vals) key =
           run_key (jdiv cur (Fin (real n))) (map_of vals key)
             (map (\<lambda>k. jdiv (case map_of (results (original ! nat (max k 0))) key of
                               Some x \<Rightarrow> x
                             | None \<Rightarrow> NaN)
                            (Fin (real n)))
                  [k + 1 .. i - 1])"
  using assms
proof (induction n original probe i k vals rule: avg_while.induct)
  case (1 n original probe i k vals)
  show ?case
  proof (cases "k + 1 < i")
    case False
    then show ?thesis
      by (subst avg_while.simps) simp
  next
    case True
    let ?vals = "fold (\<lambda>kv acc. avg_step n original (k + 1) acc kv) (results probe) vals"
    have vk: "map_of ?vals key = Some (key_step n original (k + 1) key cur (map_of vals key))"
      using "1.prems" by (simp add: map_of_avg_fold)
    have upto: "[k + 1 .. i - 1] = (k + 1) # [k + 1 + 1 .. i - 1]"
      using True by (simp add: upto_rec1)
    have unf: "avg_while n original probe i k vals = avg_while n original probe i (k + 1) ?vals"
      using True by (subst avg_while.simps) simp
    show ?thesis
      unfolding unf "1.IH" [OF True "1.prems"] vk upto
      by (simp add: key_step_def)
  qed
qed

lemma length_window_terms: "length (window_terms n original i key) = n - 1"
  by (simp add: window_terms_def)

text \<open>
  C5, as the code has it. The loop runs for \<open>k = i - n + 1, ..., i - 1\<close>, that is
  \<open>n - 1\<close> times, and its first pass seeds the sum with the current sample's own value
  over \<open>n\<close>. So for a window \<open>n \<ge> 2\<close> and a metric of sample \<open>i\<close>, the value of
  point \<open>i\<close> is the sum of the metric over \<open>n\<close> of the \<open>n\<close> samples at the indices
  \<open>i - n + 1, ..., i\<close> (sample \<open>i\<close> included, an index below 0 replaced by 0): the
  quotients are added to that of sample \<open>i\<close> in the order of the indices, every
  division and addition rounded to a double. This holds when no sum on the way is 0 or
  NaN, which \<^verbatim>\<open>||\<close> would replace by the seed. For the metrics 1, 1, 4 and a window of
  3 the value of the last point is \<open>2 - 2^-52\<close>, not the exact mean 2.
\<close>

theorem movingAverage_value:
  assumes "i < length original" "2 \<le> n" "distinct (map fst (results (original ! i)))"
      and "map_of (results (original ! i)) key = Some c"
      and "\<forall>j. 0 < j \<and> j < n - 1 \<longrightarrow>
             truthy (foldl jadd (jdiv c (Fin (real n))) (take j (window_terms n original i key)))"
  shows "map_of (pt_values (movingAverage n original ! i)) key =
           Some (foldl jadd (jdiv c (Fin (real n))) (window_terms n original i key))"
proof -
  let ?seed = "jdiv c (Fin (real n))"
  let ?ts = "window_terms n original i key"
  have "length ?ts = n - 1"
    by (rule length_window_terms)
  with assms(2) obtain t ts where ts: "?ts = t # ts"
    by (cases ?ts) auto
  have n0: "(if n = 0 then 5 else n) = n"
    using assms(2) by simp
  have "map_of (pt_values (movingAverage n original ! i)) key =
        map_of (avg_while n original (original ! i) (int i) (int i - int n) []) key"
    using assms(1) by (simp add: movingAverage_nth n0)
  also have "\<dots> = run_key ?seed None ?ts"
    using map_of_avg_while [OF assms(3,4), of n original "int i" "int i - int n" "[]"]
    by (simp add: window_terms_def)
  also have "\<dots> = run_key ?seed (Some (jadd ?seed t)) ts"
    by (simp add: ts)
  also have "\<dots> = Some (foldl jadd (jadd ?seed t) ts)"
  proof (rule run_key_truthy, intro allI impI)
    fix j
    assume "j < length ts"
    then have "0 < Suc j \<and> Suc j < n - 1"
      using \<open>length ?ts = n - 1\<close> ts by simp
    with assms(5) have "truthy (foldl jadd ?seed (take (Suc j) ?ts))"
      by blast
    then show "truthy (foldl jadd (jadd ?seed t) (take j ts))"
      by (simp add: ts)
  qed
  also have "\<dots> = Some (foldl jadd ?seed ?ts)"
    by (simp add: ts)
  finally show ?thesis .
qed

theorem movingAverage_value_witness:
  "(2::nat) < length d114 \<and> distinct (map fst (results (d114 ! 2))) \<and>
   map_of (results (d114 ! 2)) ''latency'' = Some (Fin 4) \<and>
   window_terms 3 d114 2 ''latency'' =
     [Fin (6004799503160661 / 18014398509481984), Fin (6004799503160661 / 18014398509481984)] \<and>
   truthy (foldl jadd (jdiv (Fin 4) (Fin 3)) (take 1 (window_terms 3 d114 2 ''latency''))) \<and>
   map_of (pt_values (movingAverage 3 d114 ! 2)) ''latency'' =
     Some (Fin (9007199254740991 / 4503599627370496))"
proof -
  have w: "window_terms 3 d114 2 ''latency'' =
     [Fin (6004799503160661 / 18014398509481984), Fin (6004799503160661 / 18014398509481984)]"
    by (simp add: window_terms_def d114_def upto.simps dbl Let_def)
  have t: "foldl jadd (jdiv (Fin 4) (Fin 3)) (take 1 (window_terms 3 d114 2 ''latency'')) =
      Fin (3752999689475413 / 2251799813685248)"
    by (simp add: w dbl Let_def)
  have h: "\<forall>j. 0 < j \<and> j < (3::nat) - 1 \<longrightarrow>
             truthy (foldl jadd (jdiv (Fin 4) (Fin (real (3::nat))))
               (take j (window_terms 3 d114 2 ''latency'')))"
  proof (intro allI impI)
    fix j :: nat
    assume "0 < j \<and> j < 3 - 1"
    then have "j = 1" by simp
    then show "truthy (foldl jadd (jdiv (Fin 4) (Fin (real (3::nat))))
               (take j (window_terms 3 d114 2 ''latency'')))"
      using t by simp
  qed
  have s: "foldl jadd (jdiv (Fin 4) (Fin 3)) (window_terms 3 d114 2 ''latency'') =
      Fin (9007199254740991 / 4503599627370496)"
    by (simp add: w dbl Let_def)
  have d: "(2::nat) < length d114" "(2::nat) \<le> 3" "distinct (map fst (results (d114 ! 2)))"
    "map_of (results (d114 ! 2)) ''latency'' = Some (Fin 4)"
    by (simp_all add: d114_def)
  from movingAverage_value [OF d h] show ?thesis
    using d w t s by simp
qed

text \<open>
  The window of the specification (\<open>i - n, ..., i - 1\<close>) gives another value: for the
  scenario above, window 2 and index 1, the code yields \<open>20 / 2 + 10 / 2 = 15\<close>, the
  specification's window \<open>(10 + 10) / 2 = 10\<close>.
\<close>

theorem movingAverage_window_counterexample:
  "map_of (pt_values (movingAverage 2 d3 ! 1)) ''latency'' = Some (Fin 15) \<and>
   spec_window_mean 2 d3 1 ''latency'' = Fin 10 \<and>
   map_of (pt_values (movingAverage 2 d3 ! 1)) ''latency'' \<noteq>
     Some (spec_window_mean 2 d3 1 ''latency'')"
  by (simp add: movingAverage_def avg_while.simps d3_def avg_step_def enumerate_eq_zip upt_rec
      spec_window_mean_def metric_def upto.simps dbl Let_def)

section \<open>Properties of timeUnit\<close>

text \<open>
  The loop over the intervals, for a sample with a lag and a state with a bucket for
  every interval: it adds the lag, in days, to every bucket, and it leaves in
  \<^verbatim>\<open>interval\<close> the first index from 1 on whose threshold is at least the mean lag.
\<close>

lemma find_enumerate_less:
  "find P (List.enumerate k xs) = Some (i, y) \<Longrightarrow> k \<le> i \<and> i < k + length xs"
  by (induction xs arbitrary: k) (auto split: if_splits, fastforce+)

lemma find_holds: "find P xs = Some x \<Longrightarrow> P x"
  by (auto simp: find_Some_iff)

lemma code_interval_less: "intervals pg \<noteq> [] \<Longrightarrow> code_interval pg m < length (intervals pg)"
  by (auto simp: code_interval_def split: option.splits dest: find_enumerate_less)

lemma forEach_each:
  assumes "results probe = Some r" "r_lag r = Some l"
  shows "k + length xs \<le> length memo \<Longrightarrow>
         \<exists>memo1 iv1. forEach (each pg probe) (List.enumerate k xs) (memo, iv) = Inr (memo1, iv1) \<and>
           length memo1 = length memo \<and>
           (\<forall>i < length memo. memo1 ! i =
              (if k \<le> i \<and> i < k + length xs
               then (memo ! i)\<lparr>b_days := jadd (b_days (memo ! i)) (jdiv (mean l) (day pg))\<rparr>
               else memo ! i)) \<and>
           (if found iv then iv1 = iv
            else case find (\<lambda>(i, key, thr). 0 < i \<and> jle (mean l) thr) (List.enumerate k xs) of
                   Some (i, key, thr) \<Rightarrow> iv1 = Some i
                 | None \<Rightarrow> \<not> found iv1)"
proof (induction xs arbitrary: k memo iv)
  case Nil
  then show ?case by auto
next
  case (Cons x xs)
  obtain key thr where x: "x = (key, thr)" by (cases x)
  let ?memo = "memo[k := (memo ! k)\<lparr>b_days := jadd (b_days (memo ! k)) (jdiv (mean l) (day pg))\<rparr>]"
  let ?iv = "if found iv then iv else if jle (mean l) thr then Some k else iv"
  from Cons.prems have k: "k < length memo" and rest: "Suc k + length xs \<le> length ?memo"
    by simp_all
  have step: "each pg probe (memo, iv) (k, key, thr) = Inr (?memo, ?iv)"
    using assms k by (simp add: each_def Let_def)
  from Cons.IH [OF rest, of ?iv] obtain memo1 iv1 where
    run: "forEach (each pg probe) (List.enumerate (Suc k) xs) (?memo, ?iv) = Inr (memo1, iv1)"
    and len: "length memo1 = length ?memo"
    and nth: "\<forall>i < length ?memo. memo1 ! i =
              (if Suc k \<le> i \<and> i < Suc k + length xs
               then (?memo ! i)\<lparr>b_days := jadd (b_days (?memo ! i)) (jdiv (mean l) (day pg))\<rparr>
               else ?memo ! i)"
    and iv1: "if found ?iv then iv1 = ?iv
            else case find (\<lambda>(i, key, thr). 0 < i \<and> jle (mean l) thr) (List.enumerate (Suc k) xs) of
                   Some (i, key, thr) \<Rightarrow> iv1 = Some i
                 | None \<Rightarrow> \<not> found iv1"
    by blast
  have "forEach (each pg probe) (List.enumerate k (x # xs)) (memo, iv) = Inr (memo1, iv1)"
    using step run by (simp add: x)
  moreover have "length memo1 = length memo"
    using len by simp
  moreover have "\<forall>i < length memo. memo1 ! i =
              (if k \<le> i \<and> i < k + length (x # xs)
               then (memo ! i)\<lparr>b_days := jadd (b_days (memo ! i)) (jdiv (mean l) (day pg))\<rparr>
               else memo ! i)"
    using nth k by (auto simp: nth_list_update)
  moreover have "if found iv then iv1 = iv
            else case find (\<lambda>(i, key, thr). 0 < i \<and> jle (mean l) thr) (List.enumerate k (x # xs)) of
                   Some (i, key, thr) \<Rightarrow> iv1 = Some i
                 | None \<Rightarrow> \<not> found iv1"
    using iv1 by (cases iv) (auto simp: x split: if_splits option.splits)
  ultimately show ?case by blast
qed

lemma forEach_each_no_lag:
  "results probe = Some r \<Longrightarrow> r_lag r = None \<Longrightarrow> forEach (each pg probe) xs st = Inr st"
  by (induction xs) (auto simp: each_def split: prod.splits)

lemmas delta_eval = timeUnit_def each_def pushed_def delta_base_def pg3_def Let_def dbl

text \<open>
  What \<open>timeUnit\<close> returns for a sample with a lag, with the interval the loop arrives
  at.
\<close>

lemma timeUnit_loop:
  assumes "results probe = Some r" "r_lag r = Some l"
      and "intervals pg \<noteq> []" "length (intervals pg) \<le> length memo"
  shows "\<exists>memo'. timeUnit pg memo probe = Inr memo' \<and> length memo' = length memo \<and>
           (\<forall>i < length memo.
              b_days (memo' ! i) =
                (if i < length (intervals pg)
                 then jadd (b_days (memo ! i)) (jdiv (mean l) (day pg)) else b_days (memo ! i)) \<and>
              b_type (memo' ! i) = b_type (memo ! i) \<and>
              b_n (memo' ! i) =
                (if i = code_interval pg (mean l) then b_n (memo ! i) + 1 else b_n (memo ! i)) \<and>
              b_modules (memo' ! i) =
                (if i = code_interval pg (mean l)
                 then b_modules (memo ! i) @
                        (case r_modules r of None \<Rightarrow> [] | Some ms \<Rightarrow> pushed (b_modules (memo ! i)) ms)
                 else b_modules (memo ! i)))"
proof -
  let ?c = "code_interval pg (mean l)"
  from forEach_each [OF assms(1,2), of 0 "intervals pg" memo pg None] assms(4)
  obtain memo1 iv1 where
    run: "forEach (each pg probe) (List.enumerate 0 (intervals pg)) (memo, None) = Inr (memo1, iv1)"
    and len: "length memo1 = length memo"
    and nth: "\<forall>i < length memo. memo1 ! i =
              (if i < length (intervals pg)
               then (memo ! i)\<lparr>b_days := jadd (b_days (memo ! i)) (jdiv (mean l) (day pg))\<rparr>
               else memo ! i)"
    and iv1: "case find (\<lambda>(i, key, thr). 0 < i \<and> jle (mean l) thr) (List.enumerate 0 (intervals pg)) of
                   Some (i, key, thr) \<Rightarrow> iv1 = Some i
                 | None \<Rightarrow> \<not> found iv1"
    by auto
  have c: "(if found iv1 then the iv1 else length (intervals pg) - 1) = ?c"
  proof (cases "find (\<lambda>(i, key, thr). 0 < i \<and> jle (mean l) thr) (List.enumerate 0 (intervals pg))")
    case None
    then show ?thesis
      using iv1 by (simp add: code_interval_def)
  next
    case (Some x)
    obtain i key thr where x: "x = (i, key, thr)" by (cases x)
    from find_holds [OF Some] have "0 < i" by (simp add: x)
    then show ?thesis
      using iv1 Some by (simp add: code_interval_def x)
  qed
  have cl: "?c < length memo1"
    using code_interval_less [OF assms(3), of "mean l"] assms(4) len by simp
  show ?thesis
  proof (cases "r_modules r")
    case None
    have "timeUnit pg memo probe = Inr (memo1[?c := (memo1 ! ?c)\<lparr>b_n := b_n (memo1 ! ?c) + 1\<rparr>])"
      using run c cl assms(1,3) None by (simp add: timeUnit_def Let_def)
    then show ?thesis
      using len nth cl None by (auto simp: nth_list_update)
  next
    case (Some ms)
    let ?memo2 = "memo1[?c := (memo1 ! ?c)\<lparr>b_n := b_n (memo1 ! ?c) + 1\<rparr>]"
    have "timeUnit pg memo probe =
        Inr (?memo2[?c := (?memo2 ! ?c)\<lparr>b_modules := b_modules (?memo2 ! ?c) @
                                    pushed (b_modules (?memo2 ! ?c)) ms\<rparr>])"
      using run c cl assms(1,3) Some by (simp add: timeUnit_def Let_def)
    then show ?thesis
      using len nth cl Some by (auto simp: nth_list_update)
  qed
qed

text \<open>
  The loop arrives at the interval of the specification when there is a single
  interval, and when the lag is above the first threshold.
\<close>

lemma code_interval_single: "intervals pg = [x] \<Longrightarrow> code_interval pg m = spec_interval pg m"
  by (simp add: code_interval_def spec_interval_def split: prod.splits)

lemma code_interval_above_first:
  assumes "intervals pg = (key, thr) # rest" "\<not> jle m thr"
  shows "code_interval pg m = spec_interval pg m"
proof -
  have "find (\<lambda>(i, key, thr). 0 < i \<and> jle m thr) (List.enumerate (Suc 0) rest) =
        find (\<lambda>(i, key, thr). jle m thr) (List.enumerate (Suc 0) rest)"
    by (rule find_cong) (auto simp: in_set_enumerate_eq)
  then show ?thesis
    using assms by (simp add: code_interval_def spec_interval_def)
qed

text \<open>
  C2, as the code has it. For a sample with a lag, \<open>timeUnit\<close> increases \<open>days\<close> of
  the bucket of every interval by \<open>lag.mean / pagelet.day\<close> (the variable \<^verbatim>\<open>days\<close> is
  never assigned, and the source says: "Provide all intervals on the same day with summed
  hours count") and leaves every \<open>type\<close> as it is. When the lag is above the first
  threshold, or there is a single interval, the bucket of the classified interval (the
  first whose threshold is at least the lag, the last when there is none) has its \<open>n\<close>
  incremented and the sample's new modules appended, and \<open>n\<close> and \<open>modules\<close> of every
  other bucket are unchanged.
\<close>

theorem timeUnit_lag:
  assumes "results probe = Some r" "r_lag r = Some l"
      and "intervals pg \<noteq> []" "length (intervals pg) \<le> length memo"
  shows "\<exists>memo'. timeUnit pg memo probe = Inr memo' \<and> length memo' = length memo \<and>
           (\<forall>i < length memo.
              b_days (memo' ! i) =
                (if i < length (intervals pg)
                 then jadd (b_days (memo ! i)) (jdiv (mean l) (day pg)) else b_days (memo ! i)) \<and>
              b_type (memo' ! i) = b_type (memo ! i)) \<and>
           (length (intervals pg) = 1 \<or> \<not> jle (mean l) (snd (hd (intervals pg))) \<longrightarrow>
              (\<forall>i < length memo.
                 b_n (memo' ! i) =
                   (if i = spec_interval pg (mean l) then b_n (memo ! i) + 1 else b_n (memo ! i)) \<and>
                 b_modules (memo' ! i) =
                   (if i = spec_interval pg (mean l)
                    then b_modules (memo ! i) @
                           (case r_modules r of
                              None \<Rightarrow> []
                            | Some ms \<Rightarrow> pushed (b_modules (memo ! i)) ms)
                    else b_modules (memo ! i))))"
proof -
  from timeUnit_loop [OF assms] obtain memo' where
    run: "timeUnit pg memo probe = Inr memo'" and len: "length memo' = length memo"
    and all: "\<forall>i < length memo.
              b_days (memo' ! i) =
                (if i < length (intervals pg)
                 then jadd (b_days (memo ! i)) (jdiv (mean l) (day pg)) else b_days (memo ! i)) \<and>
              b_type (memo' ! i) = b_type (memo ! i) \<and>
              b_n (memo' ! i) =
                (if i = code_interval pg (mean l) then b_n (memo ! i) + 1 else b_n (memo ! i)) \<and>
              b_modules (memo' ! i) =
                (if i = code_interval pg (mean l)
                 then b_modules (memo ! i) @
                        (case r_modules r of None \<Rightarrow> [] | Some ms \<Rightarrow> pushed (b_modules (memo ! i)) ms)
                 else b_modules (memo ! i))"
    by blast
  have same: "code_interval pg (mean l) = spec_interval pg (mean l)"
    if "length (intervals pg) = 1 \<or> \<not> jle (mean l) (snd (hd (intervals pg)))"
  proof (cases "length (intervals pg) = 1")
    case True
    then obtain x where "intervals pg = [x]"
      by (cases "intervals pg") auto
    then show ?thesis
      by (rule code_interval_single)
  next
    case False
    with that have above: "\<not> jle (mean l) (snd (hd (intervals pg)))"
      by simp
    from assms(3) obtain key thr rest where i: "intervals pg = (key, thr) # rest"
      by (cases "intervals pg") auto
    with above have "\<not> jle (mean l) thr"
      by simp
    with i show ?thesis
      by (rule code_interval_above_first)
  qed
  show ?thesis
    using run len all same by (intro exI [of _ memo']) simp
qed

theorem timeUnit_lag_witness:
  "results half_hour = Some \<lparr>r_lag = Some \<lparr>mean = Fin 1800000\<rparr>, r_modules = Some [''a'', ''b'']\<rparr> \<and>
   intervals pg3 \<noteq> [] \<and> length (intervals pg3) \<le> length (delta_base pg3) \<and>
   \<not> jle (Fin 1800000) (snd (hd (intervals pg3))) \<and>
   spec_interval pg3 (Fin 1800000) = 1 \<and>
   (\<exists>memo'. timeUnit pg3 (delta_base pg3) half_hour = Inr memo' \<and> length memo' = 3 \<and>
      map b_days memo' =
        [Fin (6004799503160661 / 288230376151711744), Fin (6004799503160661 / 288230376151711744),
         Fin (6004799503160661 / 288230376151711744)] \<and>
      map b_n memo' = [0, 1, 0])"
proof -
  let ?r = "\<lparr>r_lag = Some \<lparr>mean = Fin 1800000\<rparr>, r_modules = Some [''a'', ''b'']\<rparr>"
  have h: "results half_hour = Some ?r" "r_lag ?r = Some \<lparr>mean = Fin 1800000\<rparr>"
    "intervals pg3 \<noteq> []" "length (intervals pg3) \<le> length (delta_base pg3)"
    by (simp_all add: half_hour_def pg3_def delta_base_def)
  have c: "\<not> jle (Fin 1800000) (snd (hd (intervals pg3)))" "spec_interval pg3 (Fin 1800000) = 1"
    by (simp_all add: spec_interval_def pg3_def)
  from timeUnit_lag [OF h] obtain memo' where
    m: "timeUnit pg3 (delta_base pg3) half_hour = Inr memo'" "length memo' = length (delta_base pg3)"
    by blast
  then show ?thesis
    using h c by (auto simp: delta_eval half_hour_def)
qed

text \<open>
  The claim that only the classified interval's record changes fails: a sample with a
  mean lag of half an hour changes \<open>days\<close> of all three buckets of an empty day.
\<close>

theorem timeUnit_days_counterexample:
  "timeUnit pg3 (delta_base pg3) half_hour =
     Inr [\<lparr>b_modules = [], b_type = ''none'',
      b_days = Fin (6004799503160661 / 288230376151711744), b_n = 0\<rparr>,
          \<lparr>b_modules = [''a'', ''b''], b_type = ''hour'',
           b_days = Fin (6004799503160661 / 288230376151711744), b_n = 1\<rparr>,
          \<lparr>b_modules = [], b_type = ''day'',
           b_days = Fin (6004799503160661 / 288230376151711744), b_n = 0\<rparr>] \<and>
   delta_base pg3 =
     [\<lparr>b_modules = [], b_type = ''none'', b_days = Fin 0, b_n = 0\<rparr>,
      \<lparr>b_modules = [], b_type = ''hour'', b_days = Fin 0, b_n = 0\<rparr>,
      \<lparr>b_modules = [], b_type = ''day'', b_days = Fin 0, b_n = 0\<rparr>]"
  by (simp add: delta_eval half_hour_def)

text \<open>
  C1. According to the claim, a lag at or below the first threshold is assigned to
  index 0, the first interval whose threshold is at least the lag. In the code
  the index 0 is falsy: \<^verbatim>\<open>if (interval) return\<close> does not stop the search there, and the
  next interval, whose threshold is larger, takes the sample. For a mean lag of 0 and the
  table \<open>pg3\<close> the bucket \<^verbatim>\<open>hour\<close> (index 1) is incremented, where the interval of the
  specification is index 0.
\<close>

theorem timeUnit_first_interval:
  "timeUnit pg3 (delta_base pg3) in_sync =
     Inr [\<lparr>b_modules = [], b_type = ''none'', b_days = Fin 0, b_n = 0\<rparr>,
          \<lparr>b_modules = [], b_type = ''hour'', b_days = Fin 0, b_n = 1\<rparr>,
          \<lparr>b_modules = [], b_type = ''day'', b_days = Fin 0, b_n = 0\<rparr>] \<and>
   spec_interval pg3 (Fin 0) = 0"
  by (simp add: delta_eval in_sync_def spec_interval_def)

text \<open>
  C8. According to the claim, a module name that occurs twice in one sample's
  \<open>modules\<close> is in the bucket once. The code tests every module of the sample against
  the bucket as it is before the push, so both occurrences are pushed: for the sample
  \<open>twice\<close>, whose modules are \<^verbatim>\<open>['a', 'a']\<close>, the bucket \<^verbatim>\<open>hour\<close> of an empty day ends
  with the modules \<^verbatim>\<open>['a', 'a']\<close>.
\<close>

theorem timeUnit_modules_twice:
  "timeUnit pg3 (delta_base pg3) twice =
     Inr [\<lparr>b_modules = [], b_type = ''none'',
      b_days = Fin (6004799503160661 / 288230376151711744), b_n = 0\<rparr>,
          \<lparr>b_modules = [''a'', ''a''], b_type = ''hour'',
           b_days = Fin (6004799503160661 / 288230376151711744), b_n = 1\<rparr>,
          \<lparr>b_modules = [], b_type = ''day'',
           b_days = Fin (6004799503160661 / 288230376151711744), b_n = 0\<rparr>]"
  by (simp add: delta_eval twice_def)

text \<open>
  What the membership test does keep: a bucket without repeated names stays so when the
  sample's list has none.
\<close>

lemma pushed_distinct:
  "distinct present \<Longrightarrow> distinct ms \<Longrightarrow> distinct (present @ pushed present ms)"
  by (auto simp: pushed_def)

subsection \<open>Samples without a lag, metrics without a value\<close>

lemma timeUnit_no_lag:
  assumes "results probe = Some r" "r_lag r = None"
      and "intervals pg \<noteq> []" "length (intervals pg) \<le> length memo"
  shows "timeUnit pg memo probe =
           Inr (memo[length (intervals pg) - 1 :=
                  (memo ! (length (intervals pg) - 1))
                    \<lparr>b_n := b_n (memo ! (length (intervals pg) - 1)) + 1,
                     b_modules := b_modules (memo ! (length (intervals pg) - 1)) @
                       (case r_modules r of
                          None \<Rightarrow> []
                        | Some ms \<Rightarrow> pushed (b_modules (memo ! (length (intervals pg) - 1))) ms)\<rparr>])"
proof -
  have "forEach (each pg probe) (List.enumerate 0 (intervals pg)) (memo, None) = Inr (memo, None)"
    using assms(1,2) by (rule forEach_each_no_lag)
  moreover have "length (intervals pg) - 1 < length memo"
    using assms(3,4) by (cases "intervals pg") auto
  ultimately show ?thesis
    using assms(1,3) by (cases "r_modules r") (simp_all add: timeUnit_def Let_def)
qed

lemma avg_fold_other:
  "key \<notin> fst ` set rs \<Longrightarrow>
   map_of (fold (\<lambda>kv acc. avg_step n original k acc kv) rs vals) key = map_of vals key"
  by (induction rs arbitrary: vals) (auto simp: map_of_avg_step)

lemma avg_while_other:
  "map_of (results probe) key = None \<Longrightarrow>
   map_of (avg_while n original probe i k vals) key = map_of vals key"
proof (induction n original probe i k vals rule: avg_while.induct)
  case (1 n original probe i k vals)
  from "1.prems" have "key \<notin> fst ` set (results probe)"
    by (simp add: map_of_eq_None_iff)
  then show ?case
    using "1.IH" "1.prems" by (subst avg_while.simps) (simp add: avg_fold_other)
qed

lemma movingAverage_missing:
  "i < length original \<Longrightarrow> map_of (results (original ! i)) key = None \<Longrightarrow>
   map_of (pt_values (movingAverage n original ! i)) key = None"
  by (simp add: movingAverage_nth avg_while_other)

text \<open>
  C3, as the code has it. The test \<^verbatim>\<open>probe.results && probe.results.lag\<close> guards only the
  body of the loop. For a sample with results but no lag (and a state with a bucket for
  every interval, of which there is at least one) \<open>timeUnit\<close> raises nothing and leaves
  every \<open>days\<close> and every bucket but the last as they are; the last bucket, the
  catch-all, has its \<open>n\<close> incremented and the sample's new modules appended. In
  \<open>movingAverage\<close>, a metric that sample \<open>i\<close> does not have is not a key of point \<open>i\<close>.
\<close>

theorem lagless_sample:
  "(results probe = Some r \<and> r_lag r = None \<and> intervals pg \<noteq> [] \<and>
    length (intervals pg) \<le> length memo \<longrightarrow>
      timeUnit pg memo probe =
        Inr (memo[length (intervals pg) - 1 :=
               (memo ! (length (intervals pg) - 1))
                 \<lparr>b_n := b_n (memo ! (length (intervals pg) - 1)) + 1,
                  b_modules := b_modules (memo ! (length (intervals pg) - 1)) @
                    (case r_modules r of
                       None \<Rightarrow> []
                     | Some ms \<Rightarrow> pushed (b_modules (memo ! (length (intervals pg) - 1))) ms)\<rparr>])) \<and>
   (i < length original \<and> map_of (results (original ! i)) key = None \<longrightarrow>
      map_of (pt_values (movingAverage n original ! i)) key = None)"
  using timeUnit_no_lag [of probe r pg memo] movingAverage_missing [of i original key n]
  by blast

theorem lagless_sample_witness:
  "results no_lag = Some \<lparr>r_lag = None, r_modules = Some [''a'']\<rparr> \<and>
   intervals pg3 \<noteq> [] \<and> length (intervals pg3) \<le> length (delta_base pg3) \<and>
   timeUnit pg3 (delta_base pg3) no_lag =
     Inr [\<lparr>b_modules = [], b_type = ''none'', b_days = Fin 0, b_n = 0\<rparr>,
          \<lparr>b_modules = [], b_type = ''hour'', b_days = Fin 0, b_n = 0\<rparr>,
          \<lparr>b_modules = [''a''], b_type = ''day'', b_days = Fin 0, b_n = 1\<rparr>] \<and>
   map_of (results (d3 ! 1)) ''size'' = None \<and>
   map_of (pt_values (movingAverage 2 d3 ! 1)) ''size'' = None"
  using lagless_sample [of no_lag "\<lparr>r_lag = None, r_modules = Some [''a'']\<rparr>" pg3 "delta_base pg3"
      1 d3 "''size''" 2]
  by (simp add: no_lag_def pg3_def delta_base_def pushed_def d3_def)

text \<open>
  The claim that such a sample leaves the state unchanged fails: the catch-all bucket
  of an empty day counts it and takes its module.
\<close>

theorem timeUnit_no_lag_counterexample:
  "timeUnit pg3 (delta_base pg3) no_lag =
     Inr [\<lparr>b_modules = [], b_type = ''none'', b_days = Fin 0, b_n = 0\<rparr>,
          \<lparr>b_modules = [], b_type = ''hour'', b_days = Fin 0, b_n = 0\<rparr>,
          \<lparr>b_modules = [''a''], b_type = ''day'', b_days = Fin 0, b_n = 1\<rparr>] \<and>
   timeUnit pg3 (delta_base pg3) no_lag \<noteq> Inr (delta_base pg3)"
  by (simp add: delta_eval no_lag_def)

section \<open>Properties of groupPerDay\<close>

text \<open>
  One step of the first \<^verbatim>\<open>reduce\<close>, in a store whose cells from \<open>k\<close> on are the
  arrays of the days: the step writes to the cell of the sample's day only, a new cell
  when the day is new.
\<close>

lemma update_fresh: "map_of al k = None \<Longrightarrow> AList.update k v al = al @ [(k, v)]"
  by (induction al) (auto split: if_splits)

lemma reduce_day_Some:
  "map_of result (midnight (start p)) = Some r \<Longrightarrow>
   reduce_day midnight categorize base (result, h) p =
     (case categorize (h ! r) p of Inl e \<Rightarrow> Inl e | Inr v \<Rightarrow> Inr (result, h[r := v]))"
  by (simp add: reduce_day_def Let_def update_triv split: sum.splits)

lemma reduce_day_None:
  "map_of result (midnight (start p)) = None \<Longrightarrow>
   reduce_day midnight categorize base (result, h) p =
     (case categorize (h ! base) p of
        Inl e \<Rightarrow> Inl e
      | Inr v \<Rightarrow> Inr (result @ [(midnight (start p), length h)], h @ [v]))"
  by (simp add: reduce_day_def Let_def clone_def update_fresh split: sum.splits)

lemma refs_differ:
  assumes "distinct (map snd result)" "map_of result d = Some r" "map_of result n = Some r'" "d \<noteq> n"
  shows "r \<noteq> r'"
proof
  assume "r = r'"
  from assms(2,3) have "(d, r) \<in> set result" "(n, r') \<in> set result"
    by (auto dest: map_of_SomeD)
  moreover from assms(1) have "inj_on snd (set result)"
    by (simp add: distinct_map)
  ultimately have "(d, r) = (n, r')"
    using \<open>r = r'\<close> by (metis inj_onD snd_conv)
  with assms(4) show False by simp
qed

lemma reduce_day_step:
  assumes "reduce_day midnight categorize base (result, h) p = Inr (result1, h1)"
      and "base < k" "k \<le> length h" "distinct (map snd result)"
      and "\<forall>r \<in> snd ` set result. k \<le> r \<and> r < length h"
  shows "\<exists>ref v.
      categorize (case map_of result (midnight (start p)) of Some r0 \<Rightarrow> h ! r0 | None \<Rightarrow> h ! base) p =
        Inr v \<and>
      map_of result1 (midnight (start p)) = Some ref \<and> h1 ! ref = v \<and>
      k \<le> ref \<and> ref < length h1 \<and> length h \<le> length h1 \<and> take k h1 = take k h \<and>
      distinct (map snd result1) \<and> (\<forall>r \<in> snd ` set result1. k \<le> r \<and> r < length h1) \<and>
      (\<forall>d. d \<noteq> midnight (start p) \<longrightarrow> map_of result1 d = map_of result d) \<and>
      (\<forall>r. r \<noteq> ref \<and> r < length h \<longrightarrow> h1 ! r = h ! r) \<and>
      map fst result1 =
        (if map_of result (midnight (start p)) = None
         then map fst result @ [midnight (start p)] else map fst result)"
proof (cases "map_of result (midnight (start p))")
  case None
  from assms(1) None obtain v where v: "categorize (h ! base) p = Inr v"
    and r1: "result1 = result @ [(midnight (start p), length h)]" and h1: "h1 = h @ [v]"
    by (auto simp: reduce_day_None split: sum.splits)
  have "length h \<notin> snd ` set result"
    using assms(5) by auto
  then show ?thesis
    using None v r1 h1 assms(2-5)
    by (auto simp: nth_append map_add_def split: option.splits intro!: exI [of _ "length h"])
next
  case (Some r)
  from assms(1) Some obtain v where v: "categorize (h ! r) p = Inr v"
    and r1: "result1 = result" and h1: "h1 = h[r := v]"
    by (auto simp: reduce_day_Some split: sum.splits)
  have "r \<in> snd ` set result"
    using Some by (force dest: map_of_SomeD)
  then have "k \<le> r" "r < length h"
    using assms(5) by auto
  then show ?thesis
    using Some v r1 h1 assms(2-5)
    by (auto intro!: exI [of _ r])
qed

lemma reduce_day_runs:
  "categorize (case map_of result (midnight (start p)) of Some r0 \<Rightarrow> h ! r0 | None \<Rightarrow> h ! base) p =
     Inr v \<Longrightarrow>
   \<exists>result1 h1. reduce_day midnight categorize base (result, h) p = Inr (result1, h1)"
  by (cases "map_of result (midnight (start p))") (simp_all add: reduce_day_Some reduce_day_None)

lemma reduce_days:
  assumes "forEach (reduce_day midnight categorize base) data (result, h) = Inr (result', h')"
      and "base < k" "k \<le> length h" "distinct (map snd result)"
      and "\<forall>r \<in> snd ` set result. k \<le> r \<and> r < length h"
  shows "take k h' = take k h \<and> length h \<le> length h' \<and> distinct (map snd result') \<and>
         (\<forall>r \<in> snd ` set result'. k \<le> r \<and> r < length h') \<and>
         (\<forall>d r. map_of result' d = Some r \<longrightarrow>
            forEach categorize (on_day midnight d data)
              (case map_of result d of Some r0 \<Rightarrow> h ! r0 | None \<Rightarrow> h ! base) = Inr (h' ! r))"
  using assms
proof (induction data arbitrary: result h)
  case Nil
  then show ?case
    by (auto simp: on_day_def)
next
  case (Cons p ps)
  let ?n = "midnight (start p)"
  let ?s0 = "case map_of result ?n of Some r0 \<Rightarrow> h ! r0 | None \<Rightarrow> h ! base"
  obtain result1 h1 where
    step: "reduce_day midnight categorize base (result, h) p = Inr (result1, h1)"
    and run: "forEach (reduce_day midnight categorize base) ps (result1, h1) = Inr (result', h')"
    using Cons.prems(1) by (auto split: sum.splits)
  from reduce_day_step [OF step Cons.prems(2-5)]
  obtain ref v where v: "categorize ?s0 p = Inr v" and ref: "map_of result1 ?n = Some ref"
    and hv: "h1 ! ref = v" and kref: "k \<le> ref" "ref < length h1" and len1: "length h \<le> length h1"
    and take1: "take k h1 = take k h" and dist1: "distinct (map snd result1)"
    and rng1: "\<forall>r \<in> snd ` set result1. k \<le> r \<and> r < length h1"
    and other: "\<forall>d. d \<noteq> ?n \<longrightarrow> map_of result1 d = map_of result d"
    and same: "\<forall>r. r \<noteq> ref \<and> r < length h \<longrightarrow> h1 ! r = h ! r"
    by blast
  have k1: "k \<le> length h1"
    using Cons.prems(3) len1 by simp
  note IH = Cons.IH [OF run Cons.prems(2) k1 dist1 rng1]
  have days: "forEach categorize (on_day midnight d (p # ps))
              (case map_of result d of Some r0 \<Rightarrow> h ! r0 | None \<Rightarrow> h ! base) = Inr (h' ! r)"
    if d: "map_of result' d = Some r" for d r
  proof (cases "d = ?n")
    case True
    from IH d have "forEach categorize (on_day midnight d ps)
        (case map_of result1 d of Some r0 \<Rightarrow> h1 ! r0 | None \<Rightarrow> h1 ! base) = Inr (h' ! r)"
      by blast
    then show ?thesis
      using True v ref hv by (simp add: on_day_def)
  next
    case False
    have "(case map_of result1 d of Some r0 \<Rightarrow> h1 ! r0 | None \<Rightarrow> h1 ! base) =
          (case map_of result d of Some r0 \<Rightarrow> h ! r0 | None \<Rightarrow> h ! base)"
    proof (cases "map_of result d")
      case None
      have "base \<noteq> ref" "base < length h"
        using Cons.prems(2,3) kref by auto
      then show ?thesis
        using None other False same by simp
    next
      case (Some r0)
      then have m1: "map_of result1 d = Some r0"
        using other False by simp
      have "r0 \<noteq> ref"
        using refs_differ [OF dist1 m1 ref False] .
      moreover have "r0 \<in> snd ` set result"
        using Some by (force dest: map_of_SomeD)
      then have "r0 < length h"
        using Cons.prems(5) by auto
      ultimately show ?thesis
        using Some m1 same by simp
    qed
    moreover from IH d have "forEach categorize (on_day midnight d ps)
        (case map_of result1 d of Some r0 \<Rightarrow> h1 ! r0 | None \<Rightarrow> h1 ! base) = Inr (h' ! r)"
      by blast
    ultimately show ?thesis
      using False by (simp add: on_day_def)
  qed
  from IH have "take k h' = take k h" "length h \<le> length h'" "distinct (map snd result')"
    "\<forall>r \<in> snd ` set result'. k \<le> r \<and> r < length h'"
    using take1 len1 by auto
  with days show ?case
    by blast
qed

text \<open>
  C9. After a call of \<open>groupPerDay\<close> that returns, in a store \<open>h\<close> that holds the
  template at \<open>base\<close>: every array that existed before the call, the template among
  them, is unchanged; every day has an array of its own, allocated by the call; the
  final state of a day is the fold of \<open>categorize\<close> over the samples of that day, from
  the value of the template; and a later write to the array of one day changes neither
  an array that existed before the call nor the array of another day.
\<close>

theorem groupPerDay_template:
  assumes "groupPerDay midnight categorize base data h = Inr (points, result, h')"
      and "base < length h"
  shows "take (length h) h' = h \<and> h' ! base = h ! base \<and> distinct (map snd result) \<and>
         (\<forall>r \<in> snd ` set result. length h \<le> r \<and> r < length h') \<and>
         (\<forall>d r. map_of result d = Some r \<longrightarrow>
            forEach categorize (on_day midnight d data) (h ! base) = Inr (h' ! r)) \<and>
         (\<forall>d r v. map_of result d = Some r \<longrightarrow>
            take (length h) (h'[r := v]) = h \<and>
            (\<forall>d' r'. d' \<noteq> d \<and> map_of result d' = Some r' \<longrightarrow> (h'[r := v]) ! r' = h' ! r'))"
proof -
  from assms(1) have run: "forEach (reduce_day midnight categorize base) data ([], h) = Inr (result, h')"
    by (auto simp: groupPerDay_def split: sum.splits)
  have inv: "take (length h) h' = take (length h) h \<and> length h \<le> length h' \<and>
         distinct (map snd result) \<and>
         (\<forall>r \<in> snd ` set result. length h \<le> r \<and> r < length h') \<and>
         (\<forall>d r. map_of result d = Some r \<longrightarrow>
            forEach categorize (on_day midnight d data)
              (case map_of [] d of Some r0 \<Rightarrow> h ! r0 | None \<Rightarrow> h ! base) = Inr (h' ! r))"
    by (rule reduce_days [OF run assms(2)]) simp_all
  then have keep: "take (length h) h' = h" and dist: "distinct (map snd result)"
    and fresh: "\<forall>r \<in> snd ` set result. length h \<le> r \<and> r < length h'"
    and days: "\<forall>d r. map_of result d = Some r \<longrightarrow>
            forEach categorize (on_day midnight d data) (h ! base) = Inr (h' ! r)"
    by simp_all
  have base: "h' ! base = h ! base"
    using keep assms(2) by (metis nth_take)
  have frame: "take (length h) (h'[r := v]) = h \<and>
      (\<forall>d' r'. d' \<noteq> d \<and> map_of result d' = Some r' \<longrightarrow> (h'[r := v]) ! r' = h' ! r')"
    if d: "map_of result d = Some r" for d r v
  proof -
    from d have "r \<in> snd ` set result"
      by (force dest: map_of_SomeD)
    with fresh have "length h \<le> r" by blast
    then have "take (length h) (h'[r := v]) = h"
      using keep by simp
    moreover have "(h'[r := v]) ! r' = h' ! r'" if "d' \<noteq> d" "map_of result d' = Some r'" for d' r'
      using refs_differ [OF dist that(2) d that(1)] by simp
    ultimately show ?thesis by blast
  qed
  show ?thesis
    using keep base dist fresh days frame by blast
qed

lemmas group_eval = groupPerDay_def reduce_day_def clone_def maptoarray_def object_keys_def
  utc_midnight_def timeUnit_def each_def pushed_def delta_base_def pg3_def Let_def dbl

theorem groupPerDay_template_witness:
  "(0::nat) < length [delta_base pg3] \<and>
   (\<exists>points h'.
      groupPerDay utc_midnight (timeUnit pg3) 0 [half_hour, next_day] [delta_base pg3] =
        Inr (points, [(1400025600000, 1), (1400112000000, 2)], h') \<and>
      take 1 h' = [delta_base pg3] \<and> h' ! 0 = delta_base pg3 \<and>
      map (map b_n) h' = [[0, 0, 0], [0, 1, 0], [0, 1, 0]] \<and>
      timeUnit pg3 (delta_base pg3) next_day = Inr (h' ! 2))"
proof -
  obtain points h' where
    run: "groupPerDay utc_midnight (timeUnit pg3) 0 [half_hour, next_day] [delta_base pg3] =
        Inr (points, [(1400025600000, 1), (1400112000000, 2)], h')"
    and n: "map (map b_n) h' = [[0, 0, 0], [0, 1, 0], [0, 1, 0]]"
    by (simp add: group_eval half_hour_def next_day_def)
  have b: "(0::nat) < length [delta_base pg3]"
    by simp
  from groupPerDay_template [OF run b]
  have keep: "take (length [delta_base pg3]) h' = [delta_base pg3]"
    and base: "h' ! 0 = [delta_base pg3] ! 0"
    and days: "\<forall>d r. map_of [(1400025600000, 1), (1400112000000, 2)] d = Some r \<longrightarrow>
            forEach (timeUnit pg3) (on_day utc_midnight d [half_hour, next_day]) ([delta_base pg3] ! 0) =
              Inr (h' ! r)"
    by blast+
  from days have "forEach (timeUnit pg3) (on_day utc_midnight 1400112000000 [half_hour, next_day])
      ([delta_base pg3] ! 0) = Inr (h' ! 2)"
    by simp
  then have "timeUnit pg3 (delta_base pg3) next_day = Inr (h' ! 2)"
    by (simp add: on_day_def utc_midnight_def half_hour_def next_day_def split: sum.splits)
  then show ?thesis
    using run n keep base by simp
qed

section \<open>Properties of percentage\<close>

text \<open>
  \<^verbatim>\<open>Math.round(n / total * 100)\<close> rounds the double that the division and the
  multiplication give: for 23 of 40 that is \<open>57.49999999999999\<close>, and the percentage 57.
\<close>

lemma pct_23_40: "pct 23 (Fin 40) = Fin 57"
  by (simp add: pct_def dbl Let_def)

text \<open>
  C7. According to the claim, the percentage of a slot is always within \<open>[0, 100]\<close>.
  The code divides by the expected total without a guard, and nothing keeps \<open>n\<close> below
  that total. With a probe interval of ten minutes, three successful samples of today,
  five, fifteen and twenty-five minutes after midnight, give the totals 0, 1, 2 and the
  success percentages \<^verbatim>\<open>Infinity\<close> (\<open>Math.round(1 / 0 * 100)\<close>), 200 and 150.
\<close>

theorem percentage_out_of_range:
  "percentage pg3 (Fin 600000) utc_midnight 1400032800000 publish_base early =
     Inr [\<lparr>s_type = ''failure'', s_percentage = Fin 0, s_total = Fin 0, s_n = 0, s_lower = PInf\<rparr>,
          \<lparr>s_type = ''success'', s_percentage = PInf, s_total = Fin 0, s_n = 1, s_lower = Fin 0\<rparr>] \<and>
   percentage pg3 (Fin 600000) utc_midnight 1400032800000
     [\<lparr>s_type = ''failure'', s_percentage = Fin 0, s_total = Fin 0, s_n = 0, s_lower = PInf\<rparr>,
      \<lparr>s_type = ''success'', s_percentage = PInf, s_total = Fin 0, s_n = 1, s_lower = Fin 0\<rparr>]
     quarter_past =
     Inr [\<lparr>s_type = ''failure'', s_percentage = Fin 0, s_total = Fin 1, s_n = 0, s_lower = Fin 200\<rparr>,
          \<lparr>s_type = ''success'', s_percentage = Fin 200, s_total = Fin 1, s_n = 2, s_lower = Fin 0\<rparr>] \<and>
   percentage pg3 (Fin 600000) utc_midnight 1400032800000
     [\<lparr>s_type = ''failure'', s_percentage = Fin 0, s_total = Fin 1, s_n = 0, s_lower = Fin 200\<rparr>,
      \<lparr>s_type = ''success'', s_percentage = Fin 200, s_total = Fin 1, s_n = 2, s_lower = Fin 0\<rparr>]
     twenty_five_past =
     Inr [\<lparr>s_type = ''failure'', s_percentage = Fin 0, s_total = Fin 2, s_n = 0, s_lower = Fin 150\<rparr>,
          \<lparr>s_type = ''success'', s_percentage = Fin 150, s_total = Fin 2, s_n = 3, s_lower = Fin 0\<rparr>] \<and>
   \<not> in_range PInf \<and> \<not> in_range (Fin 200) \<and> \<not> in_range (Fin 150)"
  by (simp add: percentage_def publish_base_def early_def quarter_past_def twenty_five_past_def
      pg3_def utc_midnight_def pct_def in_range_def Let_def dbl)

section \<open>Applying a transform twice\<close>

text \<open>
  Two runs of the first \<^verbatim>\<open>reduce\<close> over the same samples, from stores that agree on the
  template and on the arrays of the days so far, agree on the days and their arrays.
\<close>

lemma map_of_None_fst: "map fst xs = map fst ys \<Longrightarrow> map_of xs d = None \<longleftrightarrow> map_of ys d = None"
  by (metis map_of_eq_None_iff set_map)

lemma reduce_sim:
  assumes "forEach (reduce_day midnight categorize base) data (result, h) = Inr (result', h')"
      and "base < k" "k \<le> length h" "distinct (map snd result)"
      and "\<forall>r \<in> snd ` set result. k \<le> r \<and> r < length h"
      and "base < k2" "k2 \<le> length h2" "distinct (map snd result2)"
      and "\<forall>r \<in> snd ` set result2. k2 \<le> r \<and> r < length h2"
      and "map fst result = map fst result2"
      and "\<forall>d r r2. map_of result d = Some r \<and> map_of result2 d = Some r2 \<longrightarrow> h ! r = h2 ! r2"
      and "h ! base = h2 ! base"
  shows "\<exists>result2' h2'.
           forEach (reduce_day midnight categorize base) data (result2, h2) = Inr (result2', h2') \<and>
           map fst result' = map fst result2' \<and>
           (\<forall>d r r2. map_of result' d = Some r \<and> map_of result2' d = Some r2 \<longrightarrow> h' ! r = h2' ! r2)"
  using assms
proof (induction data arbitrary: result h result2 h2)
  case Nil
  then show ?case by auto
next
  case (Cons p ps)
  let ?n = "midnight (start p)"
  let ?s1 = "case map_of result ?n of Some r0 \<Rightarrow> h ! r0 | None \<Rightarrow> h ! base"
  let ?s2 = "case map_of result2 ?n of Some r0 \<Rightarrow> h2 ! r0 | None \<Rightarrow> h2 ! base"
  obtain result1 h1 where
    step: "reduce_day midnight categorize base (result, h) p = Inr (result1, h1)"
    and run: "forEach (reduce_day midnight categorize base) ps (result1, h1) = Inr (result', h')"
    using Cons.prems(1) by (auto split: sum.splits)
  from reduce_day_step [OF step Cons.prems(2-5)]
  obtain ref v where v: "categorize ?s1 p = Inr v" and ref: "map_of result1 ?n = Some ref"
    and hv: "h1 ! ref = v" and kref: "k \<le> ref" "ref < length h1" and len1: "length h \<le> length h1"
    and dist1: "distinct (map snd result1)"
    and rng1: "\<forall>r \<in> snd ` set result1. k \<le> r \<and> r < length h1"
    and other: "\<forall>d. d \<noteq> ?n \<longrightarrow> map_of result1 d = map_of result d"
    and same: "\<forall>r. r \<noteq> ref \<and> r < length h \<longrightarrow> h1 ! r = h ! r"
    and keys: "map fst result1 =
        (if map_of result ?n = None then map fst result @ [?n] else map fst result)"
    by blast
  have none: "map_of result ?n = None \<longleftrightarrow> map_of result2 ?n = None"
    using Cons.prems(10) by (rule map_of_None_fst)
  have "?s1 = ?s2"
    using none Cons.prems(11,12) by (auto split: option.splits)
  with v have v2: "categorize ?s2 p = Inr v"
    by simp
  have "\<exists>result3 h3. reduce_day midnight categorize base (result2, h2) p = Inr (result3, h3)"
    using v2 by (rule reduce_day_runs)
  then obtain result3 h3 where
    step2: "reduce_day midnight categorize base (result2, h2) p = Inr (result3, h3)"
    by blast
  from reduce_day_step [OF step2 Cons.prems(6-9)] v2
  obtain ref2 where ref2: "map_of result3 ?n = Some ref2"
    and hv2: "h3 ! ref2 = v" and kref2: "k2 \<le> ref2" "ref2 < length h3" and len2: "length h2 \<le> length h3"
    and dist2: "distinct (map snd result3)"
    and rng2: "\<forall>r \<in> snd ` set result3. k2 \<le> r \<and> r < length h3"
    and other2: "\<forall>d. d \<noteq> ?n \<longrightarrow> map_of result3 d = map_of result2 d"
    and same2: "\<forall>r. r \<noteq> ref2 \<and> r < length h2 \<longrightarrow> h3 ! r = h2 ! r"
    and keys2: "map fst result3 =
        (if map_of result2 ?n = None then map fst result2 @ [?n] else map fst result2)"
    by auto
  have k1: "k \<le> length h1" and k2: "k2 \<le> length h3"
    using Cons.prems(3,7) len1 len2 by simp_all
  have fst13: "map fst result1 = map fst result3"
    using keys keys2 none Cons.prems(10) by simp
  have cells: "h1 ! r = h3 ! r2" if "map_of result1 d = Some r" "map_of result3 d = Some r2" for d r r2
  proof (cases "d = ?n")
    case True
    then show ?thesis
      using that ref ref2 hv hv2 by simp
  next
    case False
    then have m: "map_of result d = Some r" "map_of result2 d = Some r2"
      using that other other2 by simp_all
    have "r \<noteq> ref" "r2 \<noteq> ref2"
      using refs_differ [OF dist1 that(1) ref False] refs_differ [OF dist2 that(2) ref2 False]
      by simp_all
    moreover have "r \<in> snd ` set result" "r2 \<in> snd ` set result2"
      using m by (force dest: map_of_SomeD)+
    then have "r < length h" "r2 < length h2"
      using Cons.prems(5,9) by auto
    ultimately have "h1 ! r = h ! r" "h3 ! r2 = h2 ! r2"
      using same same2 by simp_all
    then show ?thesis
      using m Cons.prems(11) by simp
  qed
  have base13: "h1 ! base = h3 ! base"
  proof -
    have "base \<noteq> ref" "base < length h" "base \<noteq> ref2" "base < length h2"
      using Cons.prems(2,3,6,7) kref kref2 by auto
    then show ?thesis
      using same same2 Cons.prems(12) by simp
  qed
  have cells': "\<forall>d r r2. map_of result1 d = Some r \<and> map_of result3 d = Some r2 \<longrightarrow> h1 ! r = h3 ! r2"
    using cells by blast
  from Cons.IH [OF run Cons.prems(2) k1 dist1 rng1 Cons.prems(6) k2 dist2 rng2 fst13 cells' base13]
  show ?case
    using step2 by simp
qed

lemma maptoarray_cong:
  assumes "map fst result = map fst result2"
      and "\<forall>d r r2. map_of result d = Some r \<and> map_of result2 d = Some r2 \<longrightarrow> h ! r = h2 ! r2"
  shows "maptoarray result h = maptoarray result2 h2"
proof -
  have "(case map_of result d of Some r \<Rightarrow> h ! r | None \<Rightarrow> []) =
        (case map_of result2 d of Some r \<Rightarrow> h2 ! r | None \<Rightarrow> [])" for d
    using map_of_None_fst [OF assms(1), of d] assms(2) by (auto split: option.splits)
  moreover have "object_keys result = object_keys result2"
    using assms(1) by (simp add: object_keys_def)
  ultimately show ?thesis
    by (simp add: maptoarray_def)
qed

lemma groupPerDay_again:
  assumes "groupPerDay midnight categorize base data h = Inr (points, result, h')"
      and "base < length h"
  shows "\<exists>result2 h2. groupPerDay midnight categorize base data h' = Inr (points, result2, h2)"
proof -
  from assms(1) have run: "forEach (reduce_day midnight categorize base) data ([], h) = Inr (result, h')"
    and pts: "points = maptoarray result h'"
    by (auto simp: groupPerDay_def split: sum.splits)
  have "take (length h) h' = take (length h) h \<and> length h \<le> length h'"
    using reduce_days [OF run assms(2), of ] by simp
  then have len: "length h \<le> length h'" and base: "h ! base = h' ! base"
    using assms(2) by (simp_all, metis nth_take)
  have b2: "base < length h'"
    using assms(2) len by simp
  have "\<exists>result2 h2.
           forEach (reduce_day midnight categorize base) data ([], h') = Inr (result2, h2) \<and>
           map fst result = map fst result2 \<and>
           (\<forall>d r r2. map_of result d = Some r \<and> map_of result2 d = Some r2 \<longrightarrow> h' ! r = h2 ! r2)"
    by (rule reduce_sim [OF run assms(2) _ _ _ b2 _ _ _ _ _ base]) simp_all
  then obtain result2 h2 where
    run2: "forEach (reduce_day midnight categorize base) data ([], h') = Inr (result2, h2)"
    and keys: "map fst result = map fst result2"
    and cells: "\<forall>d r r2. map_of result d = Some r \<and> map_of result2 d = Some r2 \<longrightarrow> h' ! r = h2 ! r2"
    by blast
  have "maptoarray result h' = maptoarray result2 h2"
    using keys cells by (rule maptoarray_cong)
  then show ?thesis
    using run2 pts by (simp add: groupPerDay_def)
qed

lemma percentage_same_day:
  "midnight now' = midnight now \<Longrightarrow>
   percentage pg interval midnight now' = percentage pg interval midnight now"
  by (simp add: percentage_def fun_eq_iff)

text \<open>
  C6, as the code has it. \<open>movingAverage\<close> and \<open>timeUnit\<close> read nothing but their
  arguments and the configuration. A day-grouped transform that is applied again to the
  same samples, in the store the first application has left, returns the same points:
  the template is cloned, never written. \<open>percentage\<close> also reads the clock, but only
  the local midnight of today: two applications on the same local day agree.
\<close>

theorem transforms_repeatable:
  "(groupPerDay midnight categorize base data h = Inr (points, result, h') \<and> base < length h \<longrightarrow>
      (\<exists>result2 h2. groupPerDay midnight categorize base data h' = Inr (points, result2, h2))) \<and>
   (midnight now' = midnight now \<longrightarrow>
      percentage pg interval midnight now' = percentage pg interval midnight now \<and>
      transform_publish pg interval midnight now' samples =
        transform_publish pg interval midnight now samples)"
  using groupPerDay_again [of midnight categorize base data h points result h']
    percentage_same_day [of midnight now' now pg interval]
  by (auto simp: transform_publish_def)

lemmas publish_eval = transform_publish_def groupPerDay_def reduce_day_def clone_def maptoarray_def
  object_keys_def utc_midnight_def percentage_def publish_base_def pct_def pg3_def Let_def dbl

theorem transforms_repeatable_witness:
  "(0::nat) < length [publish_base] \<and>
   utc_midnight 1400036400000 = utc_midnight 1400032800000 \<and>
   (\<exists>points result h'.
      groupPerDay utc_midnight (percentage pg3 (Fin 600000) utc_midnight 1400032800000) 0
        [at_one, just_after] [publish_base] = Inr (points, result, h') \<and>
      map (s_percentage \<circ> pt_values) points = [Fin 0, Fin 33] \<and>
      (\<exists>result2 h2.
         groupPerDay utc_midnight (percentage pg3 (Fin 600000) utc_midnight 1400036400000) 0
           [at_one, just_after] h' = Inr (points, result2, h2)))"
proof -
  obtain points result h' where
    run: "groupPerDay utc_midnight (percentage pg3 (Fin 600000) utc_midnight 1400032800000) 0
        [at_one, just_after] [publish_base] = Inr (points, result, h')"
    and pts: "map (s_percentage \<circ> pt_values) points = [Fin 0, Fin 33]"
    by (simp add: publish_eval at_one_def just_after_def)
  have b: "(0::nat) < length [publish_base]"
    by simp
  have m: "utc_midnight 1400036400000 = utc_midnight 1400032800000"
    by (simp add: utc_midnight_def)
  from transforms_repeatable [of utc_midnight
      "percentage pg3 (Fin 600000) utc_midnight 1400032800000" 0 "[at_one, just_after]"
      "[publish_base]" points result h' 1400036400000 1400032800000 pg3 "Fin 600000"] run b m
  have again: "\<exists>result2 h2.
         groupPerDay utc_midnight (percentage pg3 (Fin 600000) utc_midnight 1400036400000) 0
           [at_one, just_after] h' = Inr (points, result2, h2)"
    by simp
  have "\<exists>points result h'.
      groupPerDay utc_midnight (percentage pg3 (Fin 600000) utc_midnight 1400032800000) 0
        [at_one, just_after] [publish_base] = Inr (points, result, h') \<and>
      map (s_percentage \<circ> pt_values) points = [Fin 0, Fin 33] \<and>
      (\<exists>result2 h2.
         groupPerDay utc_midnight (percentage pg3 (Fin 600000) utc_midnight 1400036400000) 0
           [at_one, just_after] h' = Inr (points, result2, h2))"
    using run pts again
    by - (rule exI [of _ points], rule exI [of _ result], rule exI [of _ h'], intro conjI, assumption+)
  then show ?thesis
    using b m by (intro conjI)
qed

text \<open>
  On different days they do not: for a sample taken at one o'clock, the expected total
  is 6 when the transform runs on that day and 144 when it runs on the next.
\<close>

theorem publish_clock_counterexample:
  "transform_publish pg3 (Fin 600000) utc_midnight 1400032800000 [at_one] =
     Inr [\<lparr>pt_t = 1400025600000, pt_values =
            \<lparr>s_type = ''failure'', s_percentage = Fin 0, s_total = Fin 6, s_n = 0, s_lower = Fin 17\<rparr>\<rparr>,
          \<lparr>pt_t = 1400025600000, pt_values =
            \<lparr>s_type = ''success'', s_percentage = Fin 17, s_total = Fin 6, s_n = 1, s_lower = Fin 0\<rparr>\<rparr>] \<and>
   transform_publish pg3 (Fin 600000) utc_midnight 1400119200000 [at_one] =
     Inr [\<lparr>pt_t = 1400025600000, pt_values =
            \<lparr>s_type = ''failure'', s_percentage = Fin 0, s_total = Fin 144, s_n = 0, s_lower = Fin 1\<rparr>\<rparr>,
          \<lparr>pt_t = 1400025600000, pt_values =
            \<lparr>s_type = ''success'', s_percentage = Fin 1, s_total = Fin 144, s_n = 1, s_lower = Fin 0\<rparr>\<rparr>] \<and>
   transform_publish pg3 (Fin 600000) utc_midnight 1400032800000 [at_one] \<noteq>
     transform_publish pg3 (Fin 600000) utc_midnight 1400119200000 [at_one]"
  by (simp add: publish_eval at_one_def)

end
